theory Spec2Isabelle
  imports Complex_Main "HOL-Library.Multiset"
begin

section \<open>JavaScript values\<close>

text \<open>
  The index store and the embeddings wrapper validate untyped JavaScript values at run
  time (documents read from Drive, records handed to \<open>saveIndex\<close>). Such a value
  is modelled as a JSON tree. An object is an association list; reading a property takes
  the first binding of the key, and a key with no binding reads as \<open>undefined\<close>
  (\<open>None\<close>). A number that is stored (in a document, in a vector) is a finite
  double, modelled as the real number it stands for; what the arithmetic of the code
  makes of such numbers is modelled in the next section. Strings are sequences of code
  units below 256.
\<close>

datatype json =
    JNull
  | JBool bool
  | JNum real
  | JStr string
  | JArr "json list"
  | JObj "(string \<times> json) list"

definition getProp :: "json \<Rightarrow> string \<Rightarrow> json option" where
  "getProp j k = (case j of JObj kvs \<Rightarrow> map_of kvs k | _ \<Rightarrow> None)"

section \<open>JavaScript numbers and the runtime\<close>

text \<open>
  A JavaScript number is an IEEE 754 double: a finite double (modelled as the real number
  it stands for, so that both zeros are \<open>Finite 0\<close>), one of the two infinities, or
  \<open>NaN\<close>. The comparisons of the language are exact on these values; a comparison
  with \<open>NaN\<close> is false.
\<close>

datatype number = Finite real | PosInf | NegInf | NaN

fun number_less :: "number \<Rightarrow> number \<Rightarrow> bool" where
  "number_less (Finite a) (Finite b) = (a < b)"
| "number_less (Finite a) PosInf = True"
| "number_less NegInf (Finite b) = True"
| "number_less NegInf PosInf = True"
| "number_less x y = False"


definition number_positive :: "number \<Rightarrow> bool" where
  "number_positive x = number_less (Finite 0) x"

text \<open>
  The arithmetic of the code is the arithmetic of doubles: every operation rounds, a
  result too large becomes an infinity, a result too small becomes zero. The development
  does not fix these functions: it is parametric in the arithmetic of the runtime
  (\<open>fadd\<close>, \<open>fsub\<close>, \<open>fmul\<close>, \<open>fdiv\<close> and \<open>fsqrt\<close> on operands
  that are not \<open>NaN\<close>), so that what is proved holds of the double arithmetic and
  is not a fact of exact arithmetic. The runtime also holds the two other values the code
  takes from its surroundings: the \<open>datetime\<close> check of zod (\<open>isoDatetime\<close>)
  and \<open>isDev\<close> of \<open>config/env.ts\<close>, which is true exactly when
  \<open>NODE_ENV\<close> is \<open>development\<close>.
\<close>

record runtime =
  isoDatetime :: "string \<Rightarrow> bool"
  isDev :: bool
  fadd :: "number \<Rightarrow> number \<Rightarrow> number"
  fsub :: "number \<Rightarrow> number \<Rightarrow> number"
  fmul :: "number \<Rightarrow> number \<Rightarrow> number"
  fdiv :: "number \<Rightarrow> number \<Rightarrow> number"
  fsqrt :: "number \<Rightarrow> number"

text \<open>
  The operators \<open>+\<close>, \<open>-\<close>, \<open>*\<close>, \<open>/\<close> and \<open>Math.sqrt\<close>:
  an operand that is \<open>NaN\<close> gives \<open>NaN\<close>, and the other cases are those of
  the runtime.
\<close>

definition number_plus :: "runtime \<Rightarrow> number \<Rightarrow> number \<Rightarrow> number" where
  "number_plus rt x y = (if x = NaN \<or> y = NaN then NaN else fadd rt x y)"

definition number_minus :: "runtime \<Rightarrow> number \<Rightarrow> number \<Rightarrow> number" where
  "number_minus rt x y = (if x = NaN \<or> y = NaN then NaN else fsub rt x y)"

definition number_times :: "runtime \<Rightarrow> number \<Rightarrow> number \<Rightarrow> number" where
  "number_times rt x y = (if x = NaN \<or> y = NaN then NaN else fmul rt x y)"

definition number_divide :: "runtime \<Rightarrow> number \<Rightarrow> number \<Rightarrow> number" where
  "number_divide rt x y = (if x = NaN \<or> y = NaN then NaN else fdiv rt x y)"

definition number_sqrt :: "runtime \<Rightarrow> number \<Rightarrow> number" where
  "number_sqrt rt x = (if x = NaN then NaN else fsqrt rt x)"



section \<open>lib/schemas.ts: the EmbeddingRecord schema\<close>

definition EMBEDDING_RECORD_SCHEMA_VERSION :: int where
  "EMBEDDING_RECORD_SCHEMA_VERSION = 1"

datatype KnowledgeNodeType = Note | Summary | Principle | Spec | Log | Other

definition KnowledgeNodeTypeLiteral :: "(string \<times> KnowledgeNodeType) list" where
  "KnowledgeNodeTypeLiteral =
     [(''note'', Note), (''summary'', Summary), (''principle'', Principle),
      (''spec'', Spec), (''log'', Log), (''other'', Other)]"

datatype EmbeddingSourceType = KnowledgeNode | ConversationLog | DocumentChunk

definition EmbeddingSourceTypeLiteral :: "(string \<times> EmbeddingSourceType) list" where
  "EmbeddingSourceTypeLiteral =
     [(''knowledgeNode'', KnowledgeNode), (''conversationLog'', ConversationLog),
      (''documentChunk'', DocumentChunk)]"

record EmbeddingMeta =
  model :: "string option"
  nodeType :: "KnowledgeNodeType option"
  sourceRef :: "string option"

record EmbeddingRecord =
  id' :: string
  schemaVersion :: int
  sourceType :: EmbeddingSourceType
  sourceId :: string
  vector :: "real list"
  createdAt :: string
  meta :: "EmbeddingMeta option"

subsection \<open>The zod combinators the schemas use\<close>

text \<open>
  Each combinator reads the value of a property (\<open>None\<close> when the property is
  undefined) and returns the parsed value, or \<open>None\<close> when zod reports an issue.
\<close>

definition z_string :: "json option \<Rightarrow> string option" where
  "z_string v = (case v of Some (JStr s) \<Rightarrow> Some s | _ \<Rightarrow> None)"

definition z_string_min1 :: "json option \<Rightarrow> string option" where
  "z_string_min1 v =
     (case v of Some (JStr s) \<Rightarrow> if 1 \<le> length s then Some s else None | _ \<Rightarrow> None)"

definition z_string_datetime :: "(string \<Rightarrow> bool) \<Rightarrow> json option \<Rightarrow> string option" where
  "z_string_datetime accepts v =
     (case v of Some (JStr s) \<Rightarrow> if accepts s then Some s else None | _ \<Rightarrow> None)"

definition z_int_nonnegative :: "json option \<Rightarrow> int option" where
  "z_int_nonnegative v =
     (case v of
        Some (JNum x) \<Rightarrow> if x \<in> \<int> \<and> 0 \<le> x then Some \<lfloor>x\<rfloor> else None
      | _ \<Rightarrow> None)"

definition z_int_min1 :: "json option \<Rightarrow> int option" where
  "z_int_min1 v =
     (case v of
        Some (JNum x) \<Rightarrow> if x \<in> \<int> \<and> 1 \<le> x then Some \<lfloor>x\<rfloor> else None
      | _ \<Rightarrow> None)"

definition z_enum :: "(string \<times> 'a) list \<Rightarrow> json option \<Rightarrow> 'a option" where
  "z_enum literals v = (case v of Some (JStr s) \<Rightarrow> map_of literals s | _ \<Rightarrow> None)"

definition z_default :: "'a \<Rightarrow> (json option \<Rightarrow> 'a option) \<Rightarrow> json option \<Rightarrow> 'a option" where
  "z_default d p v = (case v of None \<Rightarrow> Some d | Some _ \<Rightarrow> p v)"

definition z_optional :: "(json option \<Rightarrow> 'a option) \<Rightarrow> json option \<Rightarrow> 'a option option" where
  "z_optional p v = (case v of None \<Rightarrow> Some None | Some _ \<Rightarrow> map_option Some (p v))"

fun z_numbers :: "json list \<Rightarrow> real list option" where
  "z_numbers [] = Some []"
| "z_numbers (JNum x # js) = map_option (\<lambda>xs. x # xs) (z_numbers js)"
| "z_numbers (_ # js) = None"

definition z_array_number_min1 :: "json option \<Rightarrow> real list option" where
  "z_array_number_min1 v =
     (case v of
        Some (JArr js) \<Rightarrow>
          (case z_numbers js of
             Some xs \<Rightarrow> if 1 \<le> length xs then Some xs else None
           | None \<Rightarrow> None)
      | _ \<Rightarrow> None)"

definition z_array_unknown :: "json option \<Rightarrow> json list option" where
  "z_array_unknown v = (case v of Some (JArr js) \<Rightarrow> Some js | _ \<Rightarrow> None)"

text \<open>A zod issue is recorded by the path of the property it is about.\<close>

type_synonym issues = "string list"

definition issue :: "string \<Rightarrow> 'a option \<Rightarrow> issues" where
  "issue path r = (case r of None \<Rightarrow> [path] | Some _ \<Rightarrow> [])"

subsection \<open>zEmbeddingRecord\<close>

text \<open>
  The \<open>meta\<close> object of a record: three optional properties; unknown properties
  are stripped.
\<close>

definition zEmbeddingMeta :: "json option \<Rightarrow> EmbeddingMeta option" where
  "zEmbeddingMeta v =
     (case v of
        Some (JObj kvs) \<Rightarrow>
          (case (z_optional z_string_min1 (map_of kvs ''model''),
                 z_optional (z_enum KnowledgeNodeTypeLiteral) (map_of kvs ''nodeType''),
                 z_optional z_string_min1 (map_of kvs ''sourceRef'')) of
             (Some m, Some n, Some s) \<Rightarrow>
               Some \<lparr>model = m, nodeType = n, sourceRef = s\<rparr>
           | _ \<Rightarrow> None)
      | _ \<Rightarrow> None)"

text \<open>
  \<open>zEmbeddingRecord.safeParse\<close>. The check of \<open>zIsoDateString\<close> is zod's
  \<open>datetime\<close>, a library predicate on strings: the development is parametric in
  it (\<open>isoDatetime\<close> of the runtime). The result is the parsed record (defaults applied, unknown
  properties stripped) or the issues.
\<close>

definition zEmbeddingRecord :: "runtime \<Rightarrow> json \<Rightarrow> issues + EmbeddingRecord" where
  "zEmbeddingRecord rt j =
     (case j of
        JObj kvs \<Rightarrow>
          (let f_id = z_string_min1 (map_of kvs ''id'');
               f_schemaVersion =
                 z_default EMBEDDING_RECORD_SCHEMA_VERSION z_int_nonnegative
                   (map_of kvs ''schemaVersion'');
               f_sourceType = z_enum EmbeddingSourceTypeLiteral (map_of kvs ''sourceType'');
               f_sourceId = z_string_min1 (map_of kvs ''sourceId'');
               f_vector = z_array_number_min1 (map_of kvs ''vector'');
               f_createdAt = z_string_datetime (isoDatetime rt) (map_of kvs ''createdAt'');
               f_meta = z_optional zEmbeddingMeta (map_of kvs ''meta'')
           in case (f_id, f_schemaVersion, f_sourceType, f_sourceId, f_vector, f_createdAt,
                    f_meta) of
                (Some i, Some sv, Some st, Some sid, Some vec, Some c, Some m) \<Rightarrow>
                  Inr \<lparr>id' = i, schemaVersion = sv, sourceType = st, sourceId = sid,
                       vector = vec, createdAt = c, meta = m\<rparr>
              | _ \<Rightarrow>
                  Inl (issue ''id'' f_id @ issue ''schemaVersion'' f_schemaVersion @
                       issue ''sourceType'' f_sourceType @ issue ''sourceId'' f_sourceId @
                       issue ''vector'' f_vector @ issue ''createdAt'' f_createdAt @
                       issue ''meta'' f_meta))
      | _ \<Rightarrow> Inl [''(root)''])"

subsection \<open>A typed record as a JavaScript value\<close>

text \<open>
  A parsed record is itself a JavaScript object: \<open>addEmbedding\<close> hands parsed
  records back to \<open>saveIndex\<close>, and \<open>saveJson\<close> serialises them. Properties
  whose value is undefined are absent.
\<close>

fun EmbeddingSourceType_name :: "EmbeddingSourceType \<Rightarrow> string" where
  "EmbeddingSourceType_name KnowledgeNode = ''knowledgeNode''"
| "EmbeddingSourceType_name ConversationLog = ''conversationLog''"
| "EmbeddingSourceType_name DocumentChunk = ''documentChunk''"

fun KnowledgeNodeType_name :: "KnowledgeNodeType \<Rightarrow> string" where
  "KnowledgeNodeType_name Note = ''note''"
| "KnowledgeNodeType_name Summary = ''summary''"
| "KnowledgeNodeType_name Principle = ''principle''"
| "KnowledgeNodeType_name Spec = ''spec''"
| "KnowledgeNodeType_name Log = ''log''"
| "KnowledgeNodeType_name Other = ''other''"

definition optionalProp :: "string \<Rightarrow> ('a \<Rightarrow> json) \<Rightarrow> 'a option \<Rightarrow> (string \<times> json) list" where
  "optionalProp k f v = (case v of None \<Rightarrow> [] | Some x \<Rightarrow> [(k, f x)])"

definition metaToJson :: "EmbeddingMeta \<Rightarrow> json" where
  "metaToJson m =
     JObj (optionalProp ''model'' JStr (model m) @
           optionalProp ''nodeType'' (\<lambda>n. JStr (KnowledgeNodeType_name n)) (nodeType m) @
           optionalProp ''sourceRef'' JStr (sourceRef m))"

definition recordToJson :: "EmbeddingRecord \<Rightarrow> json" where
  "recordToJson r =
     JObj ([(''id'', JStr (id' r)),
            (''schemaVersion'', JNum (of_int (schemaVersion r))),
            (''sourceType'', JStr (EmbeddingSourceType_name (sourceType r))),
            (''sourceId'', JStr (sourceId r)),
            (''vector'', JArr (map JNum (vector r))),
            (''createdAt'', JStr (createdAt r))] @
           optionalProp ''meta'' metaToJson (meta r))"

section \<open>lib/indexStore.ts\<close>

definition EMBEDDING_INDEX_SCHEMA_VERSION :: int where
  "EMBEDDING_INDEX_SCHEMA_VERSION = 1"

record EmbeddingIndexMeta =
  meta_schemaVersion :: int
  meta_createdAt :: string
  meta_updatedAt :: string
  meta_records :: "json list"

definition zEmbeddingIndexMeta :: "json \<Rightarrow> issues + EmbeddingIndexMeta" where
  "zEmbeddingIndexMeta j =
     (case j of
        JObj kvs \<Rightarrow>
          (let f_schemaVersion = z_int_min1 (map_of kvs ''schemaVersion'');
               f_createdAt = z_string (map_of kvs ''createdAt'');
               f_updatedAt = z_string (map_of kvs ''updatedAt'');
               f_records = z_array_unknown (map_of kvs ''records'')
           in case (f_schemaVersion, f_createdAt, f_updatedAt, f_records) of
                (Some sv, Some c, Some u, Some rs) \<Rightarrow>
                  Inr \<lparr>meta_schemaVersion = sv, meta_createdAt = c, meta_updatedAt = u,
                       meta_records = rs\<rparr>
              | _ \<Rightarrow>
                  Inl (issue ''schemaVersion'' f_schemaVersion @
                       issue ''createdAt'' f_createdAt @ issue ''updatedAt'' f_updatedAt @
                       issue ''records'' f_records))
      | _ \<Rightarrow> Inl [''(root)''])"

record EmbeddingIndexFile =
  file_schemaVersion :: int
  file_createdAt :: string
  file_updatedAt :: string
  records :: "EmbeddingRecord list"

record CachedEmbedding =
  cached_record :: EmbeddingRecord
  cached_norm :: number

record FileMeta =
  fm_schemaVersion :: int
  fm_createdAt :: string
  fm_updatedAt :: string

record IndexCache =
  fileMeta :: FileMeta
  embeddings :: "CachedEmbedding list"

record SearchResult =
  result_record :: EmbeddingRecord
  score :: number

subsection \<open>The process and its environment\<close>

text \<open>
  The module state is \<open>indexCache\<close>. The environment is the document stored in
  Drive under the index file name (\<open>driveFile\<close>, \<open>None\<close> when there is no
  such file), whether the \<open>n\<close>-th Drive call fails (\<open>driveFails\<close>, counted by
  \<open>ioCount\<close>), and the clock read by \<open>nowIso\<close> (\<open>clock\<close>, counted by
  \<open>ticks\<close>). A Drive call that fails throws and is taken to leave the stored
  document as it was. \<open>warnLog\<close> holds what the module has written with
  \<open>console.warn\<close>, one entry for each call, oldest first; the messages of
  \<open>logDev\<close>, which go to \<open>console.log\<close>, are not modelled.
\<close>

datatype error =
    DriveError
  | CorruptIndex issues
  | InvalidRecord issues
  | EmptyVector string
  | CacheNotInitialized
  | InvalidQueryVector
  | DimensionMismatch nat nat
  | ZeroNormQuery

record world =
  indexCache :: "IndexCache option"
  driveFile :: "json option"
  driveFails :: "nat \<Rightarrow> bool"
  ioCount :: nat
  clock :: "nat \<Rightarrow> string"
  ticks :: nat
  warnLog :: "issues list"

definition nowIso :: "world \<Rightarrow> string \<times> world" where
  "nowIso w = (clock w (ticks w), w\<lparr>ticks := Suc (ticks w)\<rparr>)"

definition readJson :: "world \<Rightarrow> (error + json option) \<times> world" where
  "readJson w =
     (if driveFails w (ioCount w) then (Inl DriveError, w\<lparr>ioCount := Suc (ioCount w)\<rparr>)
      else (Inr (driveFile w), w\<lparr>ioCount := Suc (ioCount w)\<rparr>))"

definition saveJson :: "json \<Rightarrow> world \<Rightarrow> (error + unit) \<times> world" where
  "saveJson data w =
     (if driveFails w (ioCount w) then (Inl DriveError, w\<lparr>ioCount := Suc (ioCount w)\<rparr>)
      else (Inr (), w\<lparr>driveFile := Some data, ioCount := Suc (ioCount w)\<rparr>))"

subsection \<open>computeNorm and dotProduct\<close>

fun computeNorm_loop :: "runtime \<Rightarrow> number \<Rightarrow> real list \<Rightarrow> number" where
  "computeNorm_loop rt sumSq [] = sumSq"
| "computeNorm_loop rt sumSq (v # vec) =
     computeNorm_loop rt (number_plus rt sumSq (number_times rt (Finite v) (Finite v))) vec"

definition computeNorm :: "runtime \<Rightarrow> real list \<Rightarrow> number" where
  "computeNorm rt vec = number_sqrt rt (computeNorm_loop rt (Finite 0) vec)"

text \<open>
  \<open>dotProduct\<close> runs over the indices of \<open>a\<close>. Where \<open>b\<close> is shorter,
  \<open>b[i]\<close> is undefined, which the multiplication converts to \<open>NaN\<close>.
\<close>

fun dotProduct_loop :: "runtime \<Rightarrow> number \<Rightarrow> real list \<Rightarrow> real list \<Rightarrow> number" where
  "dotProduct_loop rt acc [] b = acc"
| "dotProduct_loop rt acc (x # a) [] =
     dotProduct_loop rt (number_plus rt acc (number_times rt (Finite x) NaN)) a []"
| "dotProduct_loop rt acc (x # a) (y # b) =
     dotProduct_loop rt (number_plus rt acc (number_times rt (Finite x) (Finite y))) a b"

definition dotProduct :: "runtime \<Rightarrow> real list \<Rightarrow> real list \<Rightarrow> number" where
  "dotProduct rt a b = dotProduct_loop rt (Finite 0) a b"

subsection \<open>loadIndexFileFromDrive and saveIndexFileToDrive\<close>

text \<open>
  The loop over the raw records: a record that fails to parse is counted and skipped, and
  when \<open>isDev\<close> holds its issues are written with \<open>console.warn\<close>. The
  loop returns the records, the count (which the code only hands to \<open>logDev\<close>)
  and the warnings written.
\<close>

fun load_loop ::
  "runtime \<Rightarrow> json list \<Rightarrow> EmbeddingRecord list \<Rightarrow> nat \<Rightarrow> issues list \<Rightarrow>
   EmbeddingRecord list \<times> nat \<times> issues list"
where
  "load_loop rt [] recs skipped warned = (recs, skipped, warned)"
| "load_loop rt (r # rawRecords) recs skipped warned =
     (case zEmbeddingRecord rt r of
        Inl iss \<Rightarrow>
          load_loop rt rawRecords recs (skipped + 1)
            (if isDev rt then warned @ [iss] else warned)
      | Inr data \<Rightarrow> load_loop rt rawRecords (recs @ [data]) skipped warned)"

definition loadIndexFileFromDrive ::
  "runtime \<Rightarrow> world \<Rightarrow> (error + EmbeddingIndexFile option) \<times> world"
where
  "loadIndexFileFromDrive rt w =
     (case readJson w of
        (Inl e, w1) \<Rightarrow> (Inl e, w1)
      | (Inr None, w1) \<Rightarrow> (Inr None, w1)
      | (Inr (Some JNull), w1) \<Rightarrow> (Inr None, w1)
      | (Inr (Some raw), w1) \<Rightarrow>
          (case zEmbeddingIndexMeta raw of
             Inl iss \<Rightarrow> (Inl (CorruptIndex iss), w1)
           | Inr m \<Rightarrow>
               (case load_loop rt (meta_records m) [] 0 [] of
                  (recs, skipped, warned) \<Rightarrow>
                    (Inr (Some \<lparr>file_schemaVersion = meta_schemaVersion m,
                                file_createdAt = meta_createdAt m,
                                file_updatedAt = meta_updatedAt m,
                                records = recs\<rparr>),
                     w1\<lparr>warnLog := warnLog w1 @ warned\<rparr>))))"

definition indexFileToJson :: "int \<Rightarrow> string \<Rightarrow> string \<Rightarrow> EmbeddingRecord list \<Rightarrow> json" where
  "indexFileToJson sv c u rs =
     JObj [(''schemaVersion'', JNum (of_int sv)), (''createdAt'', JStr c),
           (''updatedAt'', JStr u), (''records'', JArr (map recordToJson rs))]"

definition saveIndexFileToDrive :: "EmbeddingIndexFile \<Rightarrow> world \<Rightarrow> (error + unit) \<times> world" where
  "saveIndexFileToDrive file w =
     (case nowIso w of
        (updatedAt, w1) \<Rightarrow>
          saveJson (indexFileToJson (file_schemaVersion file) (file_createdAt file) updatedAt
                      (records file)) w1)"

subsection \<open>buildCachedEmbeddings rt and ensureIndexLoaded\<close>

fun buildCachedEmbeddings ::
  "runtime \<Rightarrow> EmbeddingRecord list \<Rightarrow> error + CachedEmbedding list"
where
  "buildCachedEmbeddings rt [] = Inr []"
| "buildCachedEmbeddings rt (r # rs) =
     (if length (vector r) = 0 then Inl (EmptyVector (id' r))
      else case buildCachedEmbeddings rt rs of
             Inl e \<Rightarrow> Inl e
           | Inr es \<Rightarrow> Inr (\<lparr>cached_record = r, cached_norm = computeNorm rt (vector r)\<rparr> # es))"

definition ensureIndexLoaded :: "runtime \<Rightarrow> world \<Rightarrow> (error + unit) \<times> world" where
  "ensureIndexLoaded rt w =
     (case indexCache w of
        Some c \<Rightarrow> (Inr (), w)
      | None \<Rightarrow>
          (case loadIndexFileFromDrive rt w of
             (Inl e, w1) \<Rightarrow> (Inl e, w1)
           | (Inr None, w1) \<Rightarrow>
               (case nowIso w1 of
                  (now, w2) \<Rightarrow>
                    (case saveIndexFileToDrive
                            \<lparr>file_schemaVersion = EMBEDDING_INDEX_SCHEMA_VERSION,
                             file_createdAt = now, file_updatedAt = now, records = []\<rparr> w2 of
                       (Inl e, w3) \<Rightarrow> (Inl e, w3)
                     | (Inr u, w3) \<Rightarrow>
                         (Inr (),
                          w3\<lparr>indexCache :=
                               Some \<lparr>fileMeta =
                                       \<lparr>fm_schemaVersion = EMBEDDING_INDEX_SCHEMA_VERSION,
                                        fm_createdAt = now, fm_updatedAt = now\<rparr>,
                                     embeddings = []\<rparr>\<rparr>)))
           | (Inr (Some loaded), w1) \<Rightarrow>
               (case buildCachedEmbeddings rt (records loaded) of
                  Inl e \<Rightarrow> (Inl e, w1)
                | Inr es \<Rightarrow>
                    (Inr (),
                     w1\<lparr>indexCache :=
                          Some \<lparr>fileMeta =
                                  \<lparr>fm_schemaVersion = file_schemaVersion loaded,
                                   fm_createdAt = file_createdAt loaded,
                                   fm_updatedAt = file_updatedAt loaded\<rparr>,
                                embeddings = es\<rparr>\<rparr>))))"

subsection \<open>loadIndex, saveIndex, addEmbedding\<close>

definition loadIndex :: "runtime \<Rightarrow> world \<Rightarrow> (error + EmbeddingRecord list) \<times> world" where
  "loadIndex rt w =
     (case ensureIndexLoaded rt w of
        (Inl e, w1) \<Rightarrow> (Inl e, w1)
      | (Inr u, w1) \<Rightarrow>
          (case indexCache w1 of
             None \<Rightarrow> (Inl CacheNotInitialized, w1)
           | Some c \<Rightarrow> (Inr (map cached_record (embeddings c)), w1)))"

text \<open>The validation loop of \<open>saveIndex\<close>: the first record that fails to parse throws.\<close>

fun validate_loop ::
  "runtime \<Rightarrow> json list \<Rightarrow> EmbeddingRecord list \<Rightarrow> error + EmbeddingRecord list"
where
  "validate_loop rt [] validatedRecords = Inr validatedRecords"
| "validate_loop rt (r # rs) validatedRecords =
     (case zEmbeddingRecord rt r of
        Inl iss \<Rightarrow> Inl (InvalidRecord iss)
      | Inr data \<Rightarrow> validate_loop rt rs (validatedRecords @ [data]))"

definition saveIndex :: "runtime \<Rightarrow> json list \<Rightarrow> world \<Rightarrow> (error + unit) \<times> world" where
  "saveIndex rt recs w =
     (case ensureIndexLoaded rt w of
        (Inl e, w1) \<Rightarrow> (Inl e, w1)
      | (Inr u, w1) \<Rightarrow>
          (case indexCache w1 of
             None \<Rightarrow> (Inl CacheNotInitialized, w1)
           | Some c \<Rightarrow>
               (case (if fm_createdAt (fileMeta c) \<noteq> [] then (fm_createdAt (fileMeta c), w1)
                      else nowIso w1) of
                  (created, w2) \<Rightarrow>
                    (case nowIso w2 of
                       (updated, w3) \<Rightarrow>
                         (case validate_loop rt recs [] of
                            Inl e \<Rightarrow> (Inl e, w3)
                          | Inr validatedRecords \<Rightarrow>
                              (case saveIndexFileToDrive
                                      \<lparr>file_schemaVersion = EMBEDDING_INDEX_SCHEMA_VERSION,
                                       file_createdAt = created,
                                       file_updatedAt = updated,
                                       records = validatedRecords\<rparr> w3 of
                                 (Inl e, w4) \<Rightarrow> (Inl e, w4)
                               | (Inr u', w4) \<Rightarrow>
                                   (case buildCachedEmbeddings rt validatedRecords of
                                      Inl e \<Rightarrow> (Inl e, w4)
                                    | Inr es \<Rightarrow>
                                        (Inr (),
                                         w4\<lparr>indexCache :=
                                              Some \<lparr>fileMeta =
                                                      \<lparr>fm_schemaVersion =
                                                         EMBEDDING_INDEX_SCHEMA_VERSION,
                                                       fm_createdAt = created,
                                                       fm_updatedAt = updated\<rparr>,
                                                    embeddings = es\<rparr>\<rparr>))))))))"

text \<open>
  The scan of \<open>addEmbedding\<close>: the first record with the same id, or the same
  source type and source id, is replaced and the scan stops.
\<close>

fun replace_loop :: "EmbeddingRecord \<Rightarrow> EmbeddingRecord list \<Rightarrow> EmbeddingRecord list \<times> bool" where
  "replace_loop v [] = ([], False)"
| "replace_loop v (r # rs) =
     (if id' r = id' v \<or> (sourceType r = sourceType v \<and> sourceId r = sourceId v)
      then (v # rs, True)
      else case replace_loop v rs of (rs', replaced) \<Rightarrow> (r # rs', replaced))"

definition addEmbedding :: "runtime \<Rightarrow> json \<Rightarrow> world \<Rightarrow> (error + unit) \<times> world" where
  "addEmbedding rt rec w =
     (case ensureIndexLoaded rt w of
        (Inl e, w1) \<Rightarrow> (Inl e, w1)
      | (Inr u, w1) \<Rightarrow>
          (case indexCache w1 of
             None \<Rightarrow> (Inl CacheNotInitialized, w1)
           | Some c \<Rightarrow>
               (case zEmbeddingRecord rt rec of
                  Inl iss \<Rightarrow> (Inl (InvalidRecord iss), w1)
                | Inr validRecord \<Rightarrow>
                    (case replace_loop validRecord (map cached_record (embeddings c)) of
                       (recs, replaced) \<Rightarrow>
                         saveIndex rt
                           (map recordToJson (if replaced then recs else recs @ [validRecord]))
                           w1))))"

subsection \<open>search\<close>

text \<open>
  \<open>Array.prototype.sort\<close> with a comparator: the sort is stable, a comparator
  result of \<open>NaN\<close> counts as \<open>+0\<close>, and only the sign of the result is
  looked at. For a comparator that is consistent (it orders the elements as a total
  preorder would) the language fixes the result: the elements in the order of the
  comparator, those the comparator holds equal in their order in the array. That result
  is computed here by an insertion sort driven by the comparator: an element moves behind
  exactly those elements that the comparator places before it. For a comparator that is
  not consistent, as \<open>b.score - a.score\<close> is among three or more scores of which
  one is \<open>NaN\<close>, the language leaves the order to the implementation, and
  nothing is stated of the order in that case.
\<close>

definition sortCompare :: "('a \<Rightarrow> 'a \<Rightarrow> number) \<Rightarrow> 'a \<Rightarrow> 'a \<Rightarrow> number" where
  "sortCompare comparefn x y = (case comparefn x y of NaN \<Rightarrow> Finite 0 | v \<Rightarrow> v)"

fun sort_insert :: "('a \<Rightarrow> 'a \<Rightarrow> number) \<Rightarrow> 'a \<Rightarrow> 'a list \<Rightarrow> 'a list" where
  "sort_insert comparefn x [] = [x]"
| "sort_insert comparefn x (y # ys) =
     (if number_positive (sortCompare comparefn x y) then y # sort_insert comparefn x ys
      else x # y # ys)"

definition array_sort :: "('a \<Rightarrow> 'a \<Rightarrow> number) \<Rightarrow> 'a list \<Rightarrow> 'a list" where
  "array_sort comparefn xs = foldr (sort_insert comparefn) xs []"

text \<open>The comparator of \<open>search\<close>: \<open>b.score - a.score\<close>.\<close>

definition byScoreDescending :: "runtime \<Rightarrow> SearchResult \<Rightarrow> SearchResult \<Rightarrow> number" where
  "byScoreDescending rt a b = number_minus rt (score b) (score a)"

text \<open>The scoring loop: an entry whose stored norm is zero is skipped.\<close>

fun score_loop ::
  "runtime \<Rightarrow> real list \<Rightarrow> number \<Rightarrow> CachedEmbedding list \<Rightarrow> SearchResult list \<Rightarrow>
   SearchResult list"
where
  "score_loop rt queryVector queryNorm [] scored = scored"
| "score_loop rt queryVector queryNorm (entry # es) scored =
     (if cached_norm entry = Finite 0 then score_loop rt queryVector queryNorm es scored
      else score_loop rt queryVector queryNorm es
             (scored @
              [\<lparr>result_record = cached_record entry,
                score = number_divide rt (dotProduct rt queryVector (vector (cached_record entry)))
                          (number_times rt queryNorm (cached_norm entry))\<rparr>]))"

definition search ::
  "runtime \<Rightarrow> real list \<Rightarrow> int \<Rightarrow> world \<Rightarrow> (error + SearchResult list) \<times> world"
where
  "search rt queryVector topK w =
     (case ensureIndexLoaded rt w of
        (Inl e, w1) \<Rightarrow> (Inl e, w1)
      | (Inr u, w1) \<Rightarrow>
          (case indexCache w1 of
             None \<Rightarrow> (Inl CacheNotInitialized, w1)
           | Some c \<Rightarrow>
               (if length queryVector = 0 then (Inl InvalidQueryVector, w1)
                else case embeddings c of
                  [] \<Rightarrow> (Inr [], w1)
                | first # rest \<Rightarrow>
                    (if length queryVector \<noteq> length (vector (cached_record first))
                     then (Inl (DimensionMismatch (length queryVector)
                                  (length (vector (cached_record first)))), w1)
                     else if computeNorm rt queryVector = Finite 0 then (Inl ZeroNormQuery, w1)
                     else (Inr (take (nat (max 0 topK))
                                  (array_sort (byScoreDescending rt)
                                     (score_loop rt queryVector (computeNorm rt queryVector)
                                        (embeddings c) []))), w1)))))"

section \<open>lib/embeddings.ts\<close>

definition MAX_BATCH_SIZE :: nat where
  "MAX_BATCH_SIZE = 128"

definition MAX_RETRIES :: nat where
  "MAX_RETRIES = 3"

definition RETRY_BASE_DELAY_MS :: nat where
  "RETRY_BASE_DELAY_MS = 200"

subsection \<open>The provider and what it throws\<close>

text \<open>
  A thrown value, as far as \<open>withRetries\<close> looks at it: \<open>status\<close> and
  \<open>code\<close> (a number, a string, or undefined), \<open>message\<close>, and \<open>cause.code\<close>.
\<close>

datatype status = StatusNumber int | StatusString string

record thrown =
  err_status :: "status option"
  err_code :: "status option"
  err_message :: string
  cause_code :: "string option"

definition plainError :: "string \<Rightarrow> thrown" where
  "plainError msg =
     \<lparr>err_status = None, err_code = None, err_message = msg, cause_code = None\<rparr>"

text \<open>
  A response of \<open>client.embeddings.create\<close>: \<open>data\<close> may be missing, and an
  item's \<open>embedding\<close> may be missing or not an array (\<open>None\<close>).
\<close>

type_synonym response = "real list option list option"

text \<open>
  The environment of the wrapper: the outcome of the \<open>n\<close>-th call to the provider for
  the inputs it is given (\<open>embeddings_create\<close>), the inputs of the calls made so far
  (\<open>requestLog\<close>), and the delays slept so far (\<open>sleepLog\<close>).
\<close>

record provider_world =
  embeddings_create :: "nat \<Rightarrow> string list \<Rightarrow> thrown + response"
  requestLog :: "string list list"
  sleepLog :: "nat list"

definition callProvider ::
  "string list \<Rightarrow> provider_world \<Rightarrow> (thrown + response) \<times> provider_world"
where
  "callProvider inputs w =
     (embeddings_create w (length (requestLog w)) inputs,
      w\<lparr>requestLog := requestLog w @ [inputs]\<rparr>)"

definition sleep :: "nat \<Rightarrow> provider_world \<Rightarrow> provider_world" where
  "sleep ms w = w\<lparr>sleepLog := sleepLog w @ [ms]\<rparr>"

datatype embed_error =
    RetryFailure string nat bool string
  | EmptyInputs
  | EmptyTexts
  | EmptyText nat
  | OutputLengthMismatch nat nat

subsection \<open>withRetries\<close>

definition isRetryable :: "thrown \<Rightarrow> bool" where
  "isRetryable err =
     (let status = (case err_status err of Some s \<Rightarrow> Some s | None \<Rightarrow> err_code err)
      in status = Some (StatusNumber 429) \<or>
         (case status of Some (StatusNumber n) \<Rightarrow> 500 \<le> n \<and> n < 600 | _ \<Rightarrow> False) \<or>
         cause_code err = Some ''ETIMEDOUT'')"

text \<open>
  The loop of \<open>withRetries\<close>, with \<open>attempt\<close> the number of failures so far. The
  thrown error carries the operation name, the attempt count, the retryable flag and the
  message of the root error.
\<close>

function withRetries_loop ::
  "(provider_world \<Rightarrow> (thrown + 'a) \<times> provider_world) \<Rightarrow> string \<Rightarrow> nat \<Rightarrow> provider_world \<Rightarrow>
   (embed_error + 'a) \<times> provider_world"
where
  "withRetries_loop fn operationName attempt w =
     (case fn w of
        (Inr result, w1) \<Rightarrow> (Inr result, w1)
      | (Inl err, w1) \<Rightarrow>
          (if \<not> isRetryable err \<or> attempt + 1 > MAX_RETRIES
           then (Inl (RetryFailure operationName (attempt + 1) (isRetryable err)
                        (err_message err)), w1)
           else withRetries_loop fn operationName (attempt + 1)
                  (sleep (RETRY_BASE_DELAY_MS * 2 ^ (attempt + 1 - 1)) w1)))"
  by pat_completeness auto
termination
  by (relation "measure (\<lambda>(fn, operationName, attempt, w). MAX_RETRIES + 1 - attempt)") auto

declare withRetries_loop.simps [simp del]

definition withRetries ::
  "(provider_world \<Rightarrow> (thrown + 'a) \<times> provider_world) \<Rightarrow> string \<Rightarrow> provider_world \<Rightarrow>
   (embed_error + 'a) \<times> provider_world"
where
  "withRetries fn operationName w = withRetries_loop fn operationName 0 w"

subsection \<open>callOpenAIEmbeddings\<close>

text \<open>The map over \<open>response.data\<close>: the first item without an embedding array throws.\<close>

fun collect_vectors :: "real list option list \<Rightarrow> nat \<Rightarrow> nat + real list list" where
  "collect_vectors [] idx = Inr []"
| "collect_vectors (None # items) idx = Inl idx"
| "collect_vectors (Some v # items) idx =
     (case collect_vectors items (idx + 1) of Inl i \<Rightarrow> Inl i | Inr vs \<Rightarrow> Inr (v # vs))"

text \<open>
  The function that \<open>callOpenAIEmbeddings\<close> hands to \<open>withRetries\<close>: one call
  to the provider, then the checks of the response. The errors it throws itself are plain
  errors, with no status, code or cause.
\<close>

definition embeddingsRequest ::
  "string list \<Rightarrow> provider_world \<Rightarrow> (thrown + real list list) \<times> provider_world"
where
  "embeddingsRequest inputs w =
     (case callProvider inputs w of
        (Inl err, w1) \<Rightarrow> (Inl err, w1)
      | (Inr None, w1) \<Rightarrow> (Inl (plainError ''Embedding response length mismatch.''), w1)
      | (Inr (Some items), w1) \<Rightarrow>
          (if length items \<noteq> length inputs
           then (Inl (plainError ''Embedding response length mismatch.''), w1)
           else case collect_vectors items 0 of
                  Inl idx \<Rightarrow>
                    (Inl (plainError ''Embedding response missing embedding array.''), w1)
                | Inr vectors \<Rightarrow> (Inr vectors, w1)))"

definition callOpenAIEmbeddings ::
  "string list \<Rightarrow> provider_world \<Rightarrow> (embed_error + real list list) \<times> provider_world"
where
  "callOpenAIEmbeddings inputs w =
     (if length inputs = 0 then (Inl EmptyInputs, w)
      else withRetries (embeddingsRequest inputs) ''embedBatch'' w)"

subsection \<open>embedBatch\<close>

text \<open>\<open>String.prototype.trim\<close> on strings of code units below 256.\<close>

definition isWhiteSpace :: "char \<Rightarrow> bool" where
  "isWhiteSpace c = (of_char c \<in> {9, 10, 11, 12, 13, 32, 160 :: nat})"

definition trim :: "string \<Rightarrow> string" where
  "trim s = rev (dropWhile isWhiteSpace (rev (dropWhile isWhiteSpace s)))"

text \<open>The normalising map of \<open>embedBatch\<close>: the first text that trims to empty throws.\<close>

fun normalize :: "string list \<Rightarrow> nat \<Rightarrow> nat + string list" where
  "normalize [] idx = Inr []"
| "normalize (t # ts) idx =
     (if trim t = [] then Inl idx
      else case normalize ts (idx + 1) of
             Inl i \<Rightarrow> Inl i
           | Inr normalized \<Rightarrow> Inr (trim t # normalized))"

function chunk_loop ::
  "string list \<Rightarrow> nat \<Rightarrow> real list list \<Rightarrow> provider_world \<Rightarrow>
   (embed_error + real list list) \<times> provider_world"
where
  "chunk_loop normalized i results w =
     (if i < length normalized
      then case callOpenAIEmbeddings (take MAX_BATCH_SIZE (drop i normalized)) w of
             (Inl e, w1) \<Rightarrow> (Inl e, w1)
           | (Inr chunkVectors, w1) \<Rightarrow>
               chunk_loop normalized (i + MAX_BATCH_SIZE) (results @ chunkVectors) w1
      else (Inr results, w))"
  by pat_completeness auto
termination
  by (relation "measure (\<lambda>(normalized, i, results, w). length normalized - i)")
     (auto simp: MAX_BATCH_SIZE_def)

declare chunk_loop.simps [simp del]

definition embedBatch ::
  "string list \<Rightarrow> provider_world \<Rightarrow> (embed_error + real list list) \<times> provider_world"
where
  "embedBatch texts w =
     (if length texts = 0 then (Inl EmptyTexts, w)
      else case normalize texts 0 of
             Inl idx \<Rightarrow> (Inl (EmptyText idx), w)
           | Inr normalized \<Rightarrow>
               if length normalized \<le> MAX_BATCH_SIZE then callOpenAIEmbeddings normalized w
               else case chunk_loop normalized 0 [] w of
                      (Inl e, w1) \<Rightarrow> (Inl e, w1)
                    | (Inr results, w1) \<Rightarrow>
                        if length results \<noteq> length normalized
                        then (Inl (OutputLengthMismatch (length normalized) (length results)),
                              w1)
                        else (Inr results, w1))"

section \<open>Two calls of addEmbedding in one process\<close>

text \<open>
  The process is single-threaded: a call runs without interruption from one \<open>await\<close>
  to the next, and at an \<open>await\<close> another call may run. A call of \<open>addEmbedding\<close>
  is suspended at these points:
  \<^item> \<open>await ensureIndexLoaded()\<close> in \<open>addEmbedding\<close> (\<open>Loaded\<close>);
  \<^item> \<open>await ensureIndexLoaded()\<close> in \<open>saveIndex\<close>, after \<open>addEmbedding\<close> has
    read the cache and computed the full list of records (\<open>Saving\<close>);
  \<^item> \<open>await saveIndexFileToDrive(file)\<close> in \<open>saveIndex\<close>, with the validated
    records and the two timestamps of the file (\<open>Written\<close>).
  \<open>step\<close> runs a call from one of these points to the next. The steps of
  \<open>ensureIndexLoaded\<close> and of the Drive client are not split further: where the
  cache is loaded, \<open>ensureIndexLoaded\<close> does nothing, and the write to Drive is taken
  to happen where it is issued.
\<close>

datatype task =
    Called json
  | Loaded json
  | Saving "EmbeddingRecord list"
  | Written string string "EmbeddingRecord list"
  | Finished "error + unit"

fun step :: "runtime \<Rightarrow> task \<Rightarrow> world \<Rightarrow> task \<times> world" where
  "step rt (Called rec) w =
     (case ensureIndexLoaded rt w of
        (Inl e, w1) \<Rightarrow> (Finished (Inl e), w1)
      | (Inr u, w1) \<Rightarrow> (Loaded rec, w1))"
| "step rt (Loaded rec) w =
     (case indexCache w of
        None \<Rightarrow> (Finished (Inl CacheNotInitialized), w)
      | Some c \<Rightarrow>
          (case zEmbeddingRecord rt rec of
             Inl iss \<Rightarrow> (Finished (Inl (InvalidRecord iss)), w)
           | Inr validRecord \<Rightarrow>
               (case replace_loop validRecord (map cached_record (embeddings c)) of
                  (recs, replaced) \<Rightarrow>
                    (case ensureIndexLoaded rt w of
                       (Inl e, w1) \<Rightarrow> (Finished (Inl e), w1)
                     | (Inr u, w1) \<Rightarrow>
                         (Saving (if replaced then recs else recs @ [validRecord]), w1)))))"
| "step rt (Saving recs) w =
     (case indexCache w of
        None \<Rightarrow> (Finished (Inl CacheNotInitialized), w)
      | Some c \<Rightarrow>
          (case (if fm_createdAt (fileMeta c) \<noteq> [] then (fm_createdAt (fileMeta c), w)
                 else nowIso w) of
             (created, w2) \<Rightarrow>
               (case nowIso w2 of
                  (updated, w3) \<Rightarrow>
                    (case validate_loop rt (map recordToJson recs) [] of
                       Inl e \<Rightarrow> (Finished (Inl e), w3)
                     | Inr validatedRecords \<Rightarrow>
                         (case saveIndexFileToDrive
                                 \<lparr>file_schemaVersion = EMBEDDING_INDEX_SCHEMA_VERSION,
                                  file_createdAt = created,
                                  file_updatedAt = updated,
                                  records = validatedRecords\<rparr> w3 of
                            (Inl e, w4) \<Rightarrow> (Finished (Inl e), w4)
                          | (Inr u, w4) \<Rightarrow>
                              (Written created updated validatedRecords, w4))))))"
| "step rt (Written created updated validatedRecords) w =
     (case buildCachedEmbeddings rt validatedRecords of
        Inl e \<Rightarrow> (Finished (Inl e), w)
      | Inr es \<Rightarrow>
          (Finished (Inr ()),
           w\<lparr>indexCache :=
                Some \<lparr>fileMeta =
                        \<lparr>fm_schemaVersion = EMBEDDING_INDEX_SCHEMA_VERSION,
                         fm_createdAt = created, fm_updatedAt = updated\<rparr>,
                      embeddings = es\<rparr>\<rparr>))"
| "step rt (Finished r) w = (Finished r, w)"

text \<open>Two calls and the order in which the scheduler resumes them.\<close>

datatype turn = First | Second

fun run :: "runtime \<Rightarrow> turn list \<Rightarrow> task \<times> task \<times> world \<Rightarrow> task \<times> task \<times> world" where
  "run rt [] s = s"
| "run rt (First # schedule) (a, b, w) =
     (case step rt a w of (a', w') \<Rightarrow> run rt schedule (a', b, w'))"
| "run rt (Second # schedule) (a, b, w) =
     (case step rt b w of (b', w') \<Rightarrow> run rt schedule (a, b', w'))"

section \<open>Definitions used to state and prove the properties\<close>

subsection \<open>The cosine similarity\<close>

text \<open>
  \<open>dot(query, record) / (||query|| * ||record||)\<close>, as the specification words it,
  in the arithmetic of the runtime.
\<close>

definition cosine :: "runtime \<Rightarrow> real list \<Rightarrow> real list \<Rightarrow> number" where
  "cosine rt q v =
     number_divide rt (dotProduct rt q v) (number_times rt (computeNorm rt q) (computeNorm rt v))"

subsection \<open>Example data\<close>

text \<open>
  A runtime for the examples: it accepts one date, is not in development mode, and
  computes exactly. The numbers that the examples state (norms and scores of vectors of
  zeros and ones with one entry that is not zero) are the numbers that doubles give.
\<close>

fun exact_plus :: "number \<Rightarrow> number \<Rightarrow> number" where
  "exact_plus (Finite a) (Finite b) = Finite (a + b)"
| "exact_plus PosInf NegInf = NaN"
| "exact_plus NegInf PosInf = NaN"
| "exact_plus NaN y = NaN"
| "exact_plus x NaN = NaN"
| "exact_plus PosInf y = PosInf"
| "exact_plus NegInf y = NegInf"
| "exact_plus x PosInf = PosInf"
| "exact_plus x NegInf = NegInf"

fun exact_uminus :: "number \<Rightarrow> number" where
  "exact_uminus (Finite a) = Finite (- a)"
| "exact_uminus PosInf = NegInf"
| "exact_uminus NegInf = PosInf"
| "exact_uminus NaN = NaN"

definition exact_minus :: "number \<Rightarrow> number \<Rightarrow> number" where
  "exact_minus x y = exact_plus x (exact_uminus y)"

definition exact_signed :: "bool \<Rightarrow> number \<Rightarrow> number" where
  "exact_signed negative x = (if negative then exact_uminus x else x)"

fun exact_times :: "number \<Rightarrow> number \<Rightarrow> number" where
  "exact_times (Finite a) (Finite b) = Finite (a * b)"
| "exact_times NaN y = NaN"
| "exact_times x NaN = NaN"
| "exact_times x y =
     (if x = Finite 0 \<or> y = Finite 0 then NaN
      else exact_signed (number_less x (Finite 0) \<noteq> number_less y (Finite 0)) PosInf)"

fun exact_divide :: "number \<Rightarrow> number \<Rightarrow> number" where
  "exact_divide (Finite a) (Finite b) =
     (if b \<noteq> 0 then Finite (a / b)
      else if a = 0 then NaN
      else exact_signed (a < 0) PosInf)"
| "exact_divide NaN y = NaN"
| "exact_divide x NaN = NaN"
| "exact_divide (Finite a) y = Finite 0"
| "exact_divide x (Finite b) = exact_signed (number_less x (Finite 0) \<noteq> (b < 0)) PosInf"
| "exact_divide x y = NaN"

fun exact_sqrt :: "number \<Rightarrow> number" where
  "exact_sqrt (Finite a) = (if a < 0 then NaN else Finite (sqrt a))"
| "exact_sqrt PosInf = PosInf"
| "exact_sqrt x = NaN"

definition exampleRuntime :: runtime where
  "exampleRuntime =
     \<lparr>isoDatetime = (\<lambda>s. s = ''2025-12-11T23:28:57.318Z''), isDev = False,
      fadd = exact_plus, fsub = exact_minus, fmul = exact_times, fdiv = exact_divide,
      fsqrt = exact_sqrt\<rparr>"

text \<open>The same runtime in development mode.\<close>

definition exampleDevRuntime :: runtime where
  "exampleDevRuntime = exampleRuntime\<lparr>isDev := True\<rparr>"

definition exampleRecord :: "string \<Rightarrow> string \<Rightarrow> real list \<Rightarrow> EmbeddingRecord" where
  "exampleRecord i sid vec =
     \<lparr>id' = i, schemaVersion = 1, sourceType = KnowledgeNode, sourceId = sid,
      vector = vec, createdAt = ''2025-12-11T23:28:57.318Z'', meta = None\<rparr>"

definition example_cache :: "EmbeddingRecord list \<Rightarrow> IndexCache" where
  "example_cache rs =
     \<lparr>fileMeta = \<lparr>fm_schemaVersion = 1, fm_createdAt = ''2025-12-11T23:28:57.318Z'',
                  fm_updatedAt = ''2025-12-11T23:28:57.318Z''\<rparr>,
      embeddings =
        map (\<lambda>r. \<lparr>cached_record = r, cached_norm = computeNorm exampleRuntime (vector r)\<rparr>) rs\<rparr>"

text \<open>
  A process whose cache holds the given records, with the matching document in Drive, a
  Drive that fails exactly at the calls listed, and a clock that stands still.
\<close>

definition example_world :: "EmbeddingRecord list \<Rightarrow> nat list \<Rightarrow> world" where
  "example_world rs failing =
     \<lparr>indexCache = Some (example_cache rs),
      driveFile = Some (indexFileToJson 1 ''2025-12-11T23:28:57.318Z''
                          ''2025-12-11T23:28:57.318Z'' rs),
      driveFails = (\<lambda>n. n \<in> set failing),
      ioCount = 0,
      clock = (\<lambda>n. ''2025-12-11T23:28:57.318Z''),
      ticks = 0,
      warnLog = []\<rparr>"

subsection \<open>The EmbeddingRecord contract on typed records\<close>

text \<open>
  The contract of \<open>zEmbeddingRecord\<close>, read off the schema for a record that is
  already typed: non-empty id and source id, a schema version that is not negative, a
  vector of at least one number, a creation time accepted by the datetime check, and
  non-empty strings in \<open>meta\<close> where they are present.
\<close>

definition satisfiesMetaContract :: "EmbeddingMeta \<Rightarrow> bool" where
  "satisfiesMetaContract m =
     ((case model m of None \<Rightarrow> True | Some s \<Rightarrow> 1 \<le> length s) \<and>
      (case sourceRef m of None \<Rightarrow> True | Some s \<Rightarrow> 1 \<le> length s))"

definition satisfiesContract :: "runtime \<Rightarrow> EmbeddingRecord \<Rightarrow> bool" where
  "satisfiesContract rt r =
     (1 \<le> length (id' r) \<and> 0 \<le> schemaVersion r \<and> 1 \<le> length (sourceId r) \<and>
      1 \<le> length (vector r) \<and> isoDatetime rt (createdAt r) \<and>
      (case meta r of None \<Rightarrow> True | Some m \<Rightarrow> satisfiesMetaContract m))"

subsection \<open>A cache entry built from a record\<close>

definition cached :: "runtime \<Rightarrow> EmbeddingRecord \<Rightarrow> CachedEmbedding" where
  "cached rt r = \<lparr>cached_record = r, cached_norm = computeNorm rt (vector r)\<rparr>"

subsection \<open>One more reading of the clock, one more call to Drive\<close>

definition ticked :: "world \<Rightarrow> world" where
  "ticked w = w\<lparr>ticks := Suc (ticks w)\<rparr>"

definition called :: "world \<Rightarrow> world" where
  "called w = w\<lparr>ioCount := Suc (ioCount w)\<rparr>"

subsection \<open>The list addEmbedding saves, and when two records collide\<close>

definition upserted :: "EmbeddingRecord \<Rightarrow> EmbeddingRecord list \<Rightarrow> EmbeddingRecord list" where
  "upserted v rs =
     (case replace_loop v rs of (recs, replaced) \<Rightarrow> if replaced then recs else recs @ [v])"

definition matches :: "EmbeddingRecord \<Rightarrow> EmbeddingRecord \<Rightarrow> bool" where
  "matches v r = (id' r = id' v \<or> (sourceType r = sourceType v \<and> sourceId r = sourceId v))"

definition source :: "EmbeddingRecord \<Rightarrow> EmbeddingSourceType \<times> string" where
  "source r = (sourceType r, sourceId r)"

subsection \<open>Example documents\<close>

text \<open>A process that has not loaded the index yet, with the given document in Drive.\<close>

definition fresh_world :: "json option \<Rightarrow> world" where
  "fresh_world doc =
     \<lparr>indexCache = None, driveFile = doc, driveFails = (\<lambda>n. False), ioCount = 0,
      clock = (\<lambda>n. ''2025-12-11T23:28:57.318Z''), ticks = 0, warnLog = []\<rparr>"

text \<open>An index document with three valid records and one that has only an id.\<close>

definition example_document :: json where
  "example_document =
     JObj [(''schemaVersion'', JNum 1),
           (''createdAt'', JStr ''2025-12-11T23:28:57.318Z''),
           (''updatedAt'', JStr ''2025-12-11T23:28:57.318Z''),
           (''records'',
            JArr [recordToJson (exampleRecord ''a'' ''n1'' [1, 0]),
                  JObj [(''id'', JStr ''x'')],
                  recordToJson (exampleRecord ''b'' ''n2'' [0, 1]),
                  recordToJson (exampleRecord ''c'' ''n3'' [1, 1])])]"


subsection \<open>Transient failures\<close>

text \<open>
  The failures that the retry policy is stated for. The status of a thrown value is its
  \<open>status\<close> property, or its \<open>code\<close> property when it has no status. A
  failure is transient when its status is the number 429 or a number from 500 to 599, or
  when the code of its cause is \<open>ETIMEDOUT\<close>.
\<close>

definition reportedStatus :: "thrown \<Rightarrow> status option" where
  "reportedStatus e = (case err_status e of Some s \<Rightarrow> Some s | None \<Rightarrow> err_code e)"

definition transient :: "thrown \<Rightarrow> bool" where
  "transient e =
     ((case reportedStatus e of
         Some (StatusNumber n) \<Rightarrow> n = 429 \<or> (500 \<le> n \<and> n < 600)
       | _ \<Rightarrow> False) \<or>
      cause_code e = Some ''ETIMEDOUT'')"

subsection \<open>Consecutive chunks, and the vectors of a response\<close>

text \<open>
  The partition of a list into consecutive chunks of at most \<open>n\<close> elements, as the
  specification words it.
\<close>

function chunks :: "nat \<Rightarrow> 'a list \<Rightarrow> 'a list list" where
  "chunks n xs = (if n = 0 \<or> xs = [] then [] else take n xs # chunks n (drop n xs))"
  by pat_completeness auto
termination
  by (relation "measure (\<lambda>(n, xs). length xs)") auto

declare chunks.simps [simp del]

definition response_vectors :: "thrown + response \<Rightarrow> real list list" where
  "response_vectors r =
     (case r of
        Inr (Some items) \<Rightarrow> (case collect_vectors items 0 of Inr vs \<Rightarrow> vs | Inl i \<Rightarrow> [])
      | _ \<Rightarrow> [])"

subsection \<open>Example providers\<close>

definition provider_world0 :: "(nat \<Rightarrow> string list \<Rightarrow> thrown + response) \<Rightarrow> provider_world" where
  "provider_world0 f = \<lparr>embeddings_create = f, requestLog = [], sleepLog = []\<rparr>"

definition httpError :: "int \<Rightarrow> thrown" where
  "httpError n =
     \<lparr>err_status = Some (StatusNumber n), err_code = None, err_message = ''http error'',
      cause_code = None\<rparr>"

text \<open>A provider that answers every text with the vector of its length.\<close>

definition lengthProvider :: "nat \<Rightarrow> string list \<Rightarrow> thrown + response" where
  "lengthProvider n inputs = Inr (Some (map (\<lambda>t. Some [real (length t)]) inputs))"

subsection \<open>A provider that answers every call, and its answers to a list of chunks\<close>

definition provider_ok :: "provider_world \<Rightarrow> bool" where
  "provider_ok w =
     (\<forall>n inputs. \<exists>vs. embeddings_create w n inputs = Inr (Some (map Some vs)) \<and>
                      length vs = length inputs)"

definition responses :: "provider_world \<Rightarrow> string list list \<Rightarrow> real list list list" where
  "responses w cs =
     map (\<lambda>k. response_vectors (embeddings_create w (length (requestLog w) + k) (cs ! k)))
       [0..<length cs]"

section \<open>Properties of search\<close>

subsection \<open>Auxiliary facts\<close>

lemma ensureIndexLoaded_loaded:
  "indexCache w = Some c \<Longrightarrow> ensureIndexLoaded rt w = (Inr (), w)"
  by (simp add: ensureIndexLoaded_def)

lemma number_less_not_NaN: "number_less x y \<Longrightarrow> x \<noteq> NaN \<and> y \<noteq> NaN"
  by (cases x; cases y) simp_all


















lemma dotProduct_loop_NaN: "dotProduct_loop rt NaN a b = NaN"
  by (induction rt NaN a b rule: dotProduct_loop.induct) (simp_all add: number_plus_def)

text \<open>
  A cached vector that is shorter than the query has the score \<open>NaN\<close>, whatever the
  arithmetic of the runtime: \<open>dotProduct\<close> reads past its end.
\<close>

lemma dotProduct_short:
  "length b < length a \<Longrightarrow> dotProduct_loop rt acc a b = NaN"
proof (induction rt acc a b rule: dotProduct_loop.induct)
  case (2 rt acc x a)
  show ?case by (simp add: number_plus_def number_times_def dotProduct_loop_NaN)
qed simp_all

lemma cosine_short: "length v < length q \<Longrightarrow> cosine rt q v = NaN"
  by (simp add: cosine_def dotProduct_def dotProduct_short number_divide_def)


lemma exampleRuntime_fields:
  "isoDatetime exampleRuntime = (\<lambda>s. s = ''2025-12-11T23:28:57.318Z'')"
  "isDev exampleRuntime = False"
  "fadd exampleRuntime = exact_plus" "fsub exampleRuntime = exact_minus"
  "fmul exampleRuntime = exact_times" "fdiv exampleRuntime = exact_divide"
  "fsqrt exampleRuntime = exact_sqrt"
  by (simp_all add: exampleRuntime_def)





lemma computeNorm_0: "computeNorm exampleRuntime [0] = Finite 0"
  by (simp add: computeNorm_def number_sqrt_def number_plus_def number_times_def
      exampleRuntime_fields)

lemma computeNorm_00: "computeNorm exampleRuntime [0, 0] = Finite 0"
  by (simp add: computeNorm_def number_sqrt_def number_plus_def number_times_def
      exampleRuntime_fields)




subsection \<open>Ranking\<close>





subsection \<open>Rejected queries\<close>

text \<open>
  C7 (as amended). Let the cache be loaded. \<open>search\<close> throws on an empty query
  vector, whatever the cache holds. When the cache is not empty, it throws when the length
  of the query differs from the length of the first cached vector, and throws when the
  lengths agree and the norm of the query is zero. When the cache is empty, a query that
  is not empty returns the empty result with no error, whatever its norm.
\<close>

theorem search_validation:
  assumes "ensureIndexLoaded rt w = (Inr (), w1)" and "indexCache w1 = Some c"
  shows "(q = [] \<longrightarrow> search rt q topK w = (Inl InvalidQueryVector, w1)) \<and>
         (q \<noteq> [] \<and> embeddings c \<noteq> [] \<and>
          length q \<noteq> length (vector (cached_record (hd (embeddings c)))) \<longrightarrow>
            search rt q topK w =
              (Inl (DimensionMismatch (length q)
                      (length (vector (cached_record (hd (embeddings c)))))), w1)) \<and>
         (q \<noteq> [] \<and> embeddings c \<noteq> [] \<and>
          length q = length (vector (cached_record (hd (embeddings c)))) \<and>
          computeNorm rt q = Finite 0 \<longrightarrow>
            search rt q topK w = (Inl ZeroNormQuery, w1)) \<and>
         (q \<noteq> [] \<and> embeddings c = [] \<longrightarrow> search rt q topK w = (Inr [], w1))"
  using assms by (cases "embeddings c") (auto simp: search_def simp del: score_loop.simps)

theorem search_validation_witness:
  "search exampleRuntime [] 3 (example_world [exampleRecord ''a'' ''n1'' [1, 0]] []) =
     (Inl InvalidQueryVector, example_world [exampleRecord ''a'' ''n1'' [1, 0]] []) \<and>
   search exampleRuntime [1] 3 (example_world [exampleRecord ''a'' ''n1'' [1, 0]] []) =
     (Inl (DimensionMismatch 1 2), example_world [exampleRecord ''a'' ''n1'' [1, 0]] []) \<and>
   search exampleRuntime [0, 0] 3 (example_world [exampleRecord ''a'' ''n1'' [1, 0]] []) =
     (Inl ZeroNormQuery, example_world [exampleRecord ''a'' ''n1'' [1, 0]] [])"
proof -
  let ?w = "example_world [exampleRecord ''a'' ''n1'' [1, 0]] []"
  let ?c = "example_cache [exampleRecord ''a'' ''n1'' [1, 0]]"
  have 1: "ensureIndexLoaded exampleRuntime ?w = (Inr (), ?w)"
    by (simp add: ensureIndexLoaded_def example_world_def)
  have 2: "indexCache ?w = Some ?c"
    by (simp add: example_world_def)
  have c: "embeddings ?c \<noteq> []" "length (vector (cached_record (hd (embeddings ?c)))) = 2"
    by (simp_all add: example_cache_def exampleRecord_def)
  show ?thesis
    using search_validation[OF 1 2, of "[]" 3] search_validation[OF 1 2, of "[1]" 3]
      search_validation[OF 1 2, of "[0, 0]" 3] c computeNorm_00
    by simp
qed

text \<open>
  On an empty cache the query \<open>[0]\<close>, whose norm is zero, is answered with the empty
  result: the early return for an empty index comes before the norm is looked at.
\<close>

theorem search_empty_cache_zero_norm_counterexample:
  "computeNorm exampleRuntime [0] = Finite 0 \<and>
   indexCache (example_world [] []) = Some (example_cache []) \<and>
   embeddings (example_cache []) = [] \<and>
   search exampleRuntime [0] 5 (example_world [] []) = (Inr [], example_world [] [])"
  by (simp add: search_def ensureIndexLoaded_def example_world_def example_cache_def
      computeNorm_0)

section \<open>Properties of the schema and of the loops of the index store\<close>

lemma z_numbers_map: "z_numbers (map JNum v) = Some v"
  by (induction v) simp_all

lemma z_numbers_Some: "z_numbers js = Some v \<Longrightarrow> js = map JNum v"
proof (induction js arbitrary: v rule: z_numbers.induct)
  case 1
  then show ?case by simp
next
  case (2 x js)
  then show ?case by (cases "z_numbers js") auto
qed simp_all

lemma z_enum_sourceType_name:
  "z_enum EmbeddingSourceTypeLiteral (Some (JStr (EmbeddingSourceType_name t))) = Some t"
  by (cases t) (simp_all add: z_enum_def EmbeddingSourceTypeLiteral_def)

lemma z_enum_nodeType_name:
  "z_enum KnowledgeNodeTypeLiteral (Some (JStr (KnowledgeNodeType_name t))) = Some t"
  by (cases t) (simp_all add: z_enum_def KnowledgeNodeTypeLiteral_def)

lemma z_int_nonnegative_of_int:
  "z_int_nonnegative (Some (JNum (of_int n))) = (if 0 \<le> n then Some n else None)"
  by (simp add: z_int_nonnegative_def)

lemma zEmbeddingMeta_metaToJson:
  "zEmbeddingMeta (Some (metaToJson m)) = (if satisfiesMetaContract m then Some m else None)"
  by (cases "model m"; cases "nodeType m"; cases "sourceRef m")
     (simp_all add: zEmbeddingMeta_def metaToJson_def optionalProp_def z_optional_def
       z_string_min1_def z_enum_nodeType_name satisfiesMetaContract_def)


lemma recordToJson_fields:
  "map_of ([(''id'', JStr (id' r)),
            (''schemaVersion'', JNum (of_int (schemaVersion r))),
            (''sourceType'', JStr (EmbeddingSourceType_name (sourceType r))),
            (''sourceId'', JStr (sourceId r)),
            (''vector'', JArr (map JNum (vector r))),
            (''createdAt'', JStr (createdAt r))] @
           optionalProp ''meta'' metaToJson (meta r)) =
   (\<lambda>k. if k = ''id'' then Some (JStr (id' r))
        else if k = ''schemaVersion'' then Some (JNum (of_int (schemaVersion r)))
        else if k = ''sourceType'' then Some (JStr (EmbeddingSourceType_name (sourceType r)))
        else if k = ''sourceId'' then Some (JStr (sourceId r))
        else if k = ''vector'' then Some (JArr (map JNum (vector r)))
        else if k = ''createdAt'' then Some (JStr (createdAt r))
        else if k = ''meta'' then map_option metaToJson (meta r)
        else None)"
  by (rule ext) (simp add: optionalProp_def map_add_def split: option.splits)

lemma zEmbeddingRecord_recordToJson:
  "satisfiesContract rt r \<Longrightarrow> zEmbeddingRecord rt (recordToJson r) = Inr r"
  unfolding zEmbeddingRecord_def recordToJson_def json.case recordToJson_fields
  by (cases "meta r")
     (simp_all add: satisfiesContract_def z_string_min1_def z_default_def
       z_int_nonnegative_of_int z_enum_sourceType_name z_array_number_min1_def z_numbers_map
       z_string_datetime_def z_optional_def zEmbeddingMeta_metaToJson)

lemma zEmbeddingRecord_recordToJson_same:
  assumes "zEmbeddingRecord rt (recordToJson r) = Inr r'"
  shows "r' = r \<and> satisfiesContract rt r"
proof (cases "satisfiesContract rt r")
  case True
  then show ?thesis using assms zEmbeddingRecord_recordToJson by fastforce
next
  case False
  have "isl (zEmbeddingRecord rt (recordToJson r))"
    using False
    unfolding zEmbeddingRecord_def recordToJson_def json.case recordToJson_fields
    by (cases "meta r")
       (auto simp add: satisfiesContract_def z_string_min1_def z_default_def Let_def
         z_int_nonnegative_of_int z_enum_sourceType_name z_array_number_min1_def z_numbers_map
         z_string_datetime_def z_optional_def zEmbeddingMeta_metaToJson)
  then show ?thesis using assms by simp
qed


lemma zEmbeddingRecord_Inr_iff:
  "zEmbeddingRecord rt j = Inr r \<longleftrightarrow>
     (\<exists>kvs. j = JObj kvs \<and>
        z_string_min1 (map_of kvs ''id'') = Some (id' r) \<and>
        z_default EMBEDDING_RECORD_SCHEMA_VERSION z_int_nonnegative
          (map_of kvs ''schemaVersion'') = Some (schemaVersion r) \<and>
        z_enum EmbeddingSourceTypeLiteral (map_of kvs ''sourceType'') = Some (sourceType r) \<and>
        z_string_min1 (map_of kvs ''sourceId'') = Some (sourceId r) \<and>
        z_array_number_min1 (map_of kvs ''vector'') = Some (vector r) \<and>
        z_string_datetime (isoDatetime rt) (map_of kvs ''createdAt'') = Some (createdAt r) \<and>
        z_optional zEmbeddingMeta (map_of kvs ''meta'') = Some (meta r))"
proof (cases j)
  case (JObj kvs)
  show ?thesis
    unfolding JObj zEmbeddingRecord_def json.case Let_def
    by (cases "z_string_min1 (map_of kvs ''id'')";
        cases "z_default EMBEDDING_RECORD_SCHEMA_VERSION z_int_nonnegative
                 (map_of kvs ''schemaVersion'')";
        cases "z_enum EmbeddingSourceTypeLiteral (map_of kvs ''sourceType'')";
        cases "z_string_min1 (map_of kvs ''sourceId'')";
        cases "z_array_number_min1 (map_of kvs ''vector'')";
        cases "z_string_datetime (isoDatetime rt) (map_of kvs ''createdAt'')";
        cases "z_optional zEmbeddingMeta (map_of kvs ''meta'')")
       (auto simp: EmbeddingRecord.equality)
qed (simp_all add: zEmbeddingRecord_def)


lemma z_string_min1_Some: "z_string_min1 v = Some s \<Longrightarrow> 1 \<le> length s"
  by (auto simp: z_string_min1_def split: option.splits json.splits if_splits)

lemma z_default_nonnegative_Some:
  "z_default EMBEDDING_RECORD_SCHEMA_VERSION z_int_nonnegative v = Some n \<Longrightarrow> 0 \<le> n"
  by (auto simp: z_default_def z_int_nonnegative_def EMBEDDING_RECORD_SCHEMA_VERSION_def
      split: option.splits json.splits if_splits)

lemma z_array_number_min1_Some: "z_array_number_min1 v = Some xs \<Longrightarrow> 1 \<le> length xs"
  by (auto simp: z_array_number_min1_def split: option.splits json.splits if_splits)

lemma z_string_datetime_Some: "z_string_datetime accepts v = Some s \<Longrightarrow> accepts s"
  by (auto simp: z_string_datetime_def split: option.splits json.splits if_splits)

lemma z_optional_string_min1_Some:
  "z_optional z_string_min1 v = Some (Some s) \<Longrightarrow> 1 \<le> length s"
  by (auto simp: z_optional_def dest: z_string_min1_Some split: option.splits)

lemma zEmbeddingMeta_Some: "zEmbeddingMeta v = Some m \<Longrightarrow> satisfiesMetaContract m"
proof -
  assume a: "zEmbeddingMeta v = Some m"
  then obtain kvs where k:
    "z_optional z_string_min1 (map_of kvs ''model'') = Some (model m)"
    "z_optional z_string_min1 (map_of kvs ''sourceRef'') = Some (sourceRef m)"
    by (auto simp: zEmbeddingMeta_def split: option.splits json.splits)
  show ?thesis
    unfolding satisfiesMetaContract_def
    using z_optional_string_min1_Some[of "map_of kvs ''model''"]
      z_optional_string_min1_Some[of "map_of kvs ''sourceRef''"] k
    by (auto split: option.splits)
qed

lemma zEmbeddingRecord_satisfiesContract:
  assumes "zEmbeddingRecord rt j = Inr r"
  shows "satisfiesContract rt r"
proof -
  from assms obtain kvs where f:
    "z_string_min1 (map_of kvs ''id'') = Some (id' r)"
    "z_default EMBEDDING_RECORD_SCHEMA_VERSION z_int_nonnegative
       (map_of kvs ''schemaVersion'') = Some (schemaVersion r)"
    "z_string_min1 (map_of kvs ''sourceId'') = Some (sourceId r)"
    "z_array_number_min1 (map_of kvs ''vector'') = Some (vector r)"
    "z_string_datetime (isoDatetime rt) (map_of kvs ''createdAt'') = Some (createdAt r)"
    "z_optional zEmbeddingMeta (map_of kvs ''meta'') = Some (meta r)"
    unfolding zEmbeddingRecord_Inr_iff by blast
  have "case meta r of None \<Rightarrow> True | Some m \<Rightarrow> satisfiesMetaContract m"
    using f(6) by (auto simp: z_optional_def dest: zEmbeddingMeta_Some split: option.splits)
  then show ?thesis
    unfolding satisfiesContract_def
    using z_string_min1_Some[OF f(1)] z_default_nonnegative_Some[OF f(2)]
      z_string_min1_Some[OF f(3)] z_array_number_min1_Some[OF f(4)]
      z_string_datetime_Some[OF f(5)]
    by simp
qed


lemma load_loop_eq:
  "map Inr (fst (load_loop rt raws recs skipped warned)) =
     map Inr recs @ filter (\<lambda>p. \<not> isl p) (map (zEmbeddingRecord rt) raws)"
  by (induction raws arbitrary: recs skipped warned) (auto split: sum.splits)

lemma load_loop_warnings:
  "map Inl (snd (snd (load_loop rt raws recs skipped warned))) =
     map Inl warned @
     (if isDev rt then filter isl (map (zEmbeddingRecord rt) raws) else [])"
  by (induction raws arbitrary: recs skipped warned) (auto split: sum.splits)

lemma load_loop_skipped:
  "fst (snd (load_loop rt raws recs skipped warned)) =
     skipped + length (filter isl (map (zEmbeddingRecord rt) raws))"
  by (induction raws arbitrary: recs skipped warned) (auto split: sum.splits)

lemma validate_loop_Inr:
  "validate_loop rt rs acc = Inr vs \<Longrightarrow>
     \<exists>ds. vs = acc @ ds \<and> map (zEmbeddingRecord rt) rs = map Inr ds"
proof (induction rs arbitrary: acc)
  case Nil
  then show ?case by simp
next
  case (Cons r rs)
  then obtain d where d: "zEmbeddingRecord rt r = Inr d"
    by (cases "zEmbeddingRecord rt r") auto
  with Cons.prems have "validate_loop rt rs (acc @ [d]) = Inr vs" by simp
  from Cons.IH[OF this] obtain ds where "vs = (acc @ [d]) @ ds"
    "map (zEmbeddingRecord rt) rs = map Inr ds" by blast
  then show ?case using d by (intro exI[of _ "d # ds"]) simp
qed

lemma validate_loop_valid:
  "map (zEmbeddingRecord rt) rs = map Inr ds \<Longrightarrow> validate_loop rt rs acc = Inr (acc @ ds)"
  by (induction rs arbitrary: acc ds) (auto)

lemma validate_loop_invalid:
  "\<exists>r \<in> set rs. isl (zEmbeddingRecord rt r) \<Longrightarrow>
     \<exists>iss. validate_loop rt rs acc = Inl (InvalidRecord iss)"
  by (induction rs arbitrary: acc) (auto split: sum.splits)

lemma validate_loop_Inl:
  "validate_loop rt rs acc = Inl e \<Longrightarrow>
     \<exists>r \<in> set rs. \<exists>iss. zEmbeddingRecord rt r = Inl iss \<and> e = InvalidRecord iss"
  by (induction rs arbitrary: acc) (auto split: sum.splits)

lemma buildCachedEmbeddings_Inr:
  "buildCachedEmbeddings rt rs = Inr es \<Longrightarrow> es = map (cached rt) rs"
  by (induction rs arbitrary: es) (auto simp: cached_def split: if_splits sum.splits)

lemma buildCachedEmbeddings_nonempty:
  "\<forall>r \<in> set rs. vector r \<noteq> [] \<Longrightarrow> buildCachedEmbeddings rt rs = Inr (map (cached rt) rs)"
  by (induction rs) (auto simp: cached_def)

section \<open>Properties of the load and save paths\<close>

subsection \<open>What each step leaves unchanged\<close>

lemma nowIso_fields:
  "indexCache (snd (nowIso w)) = indexCache w"
  "driveFile (snd (nowIso w)) = driveFile w"
  "ioCount (snd (nowIso w)) = ioCount w"
  "driveFails (snd (nowIso w)) = driveFails w"
  by (simp_all add: nowIso_def)

lemma saveJson_cache: "indexCache (snd (saveJson d w)) = indexCache w"
  by (simp add: saveJson_def)

lemma saveIndexFileToDrive_cache:
  "indexCache (snd (saveIndexFileToDrive f w)) = indexCache w"
  by (simp add: saveIndexFileToDrive_def saveJson_cache nowIso_fields split: prod.splits)
     (metis nowIso_fields(1) snd_conv)

lemma saveIndexFileToDrive_result:
  "saveIndexFileToDrive f w =
     (if driveFails w (ioCount w)
      then (Inl DriveError, w\<lparr>ticks := Suc (ticks w), ioCount := Suc (ioCount w)\<rparr>)
      else (Inr (),
            w\<lparr>ticks := Suc (ticks w),
              driveFile := Some (indexFileToJson (file_schemaVersion f) (file_createdAt f)
                                   (clock w (ticks w)) (records f)),
              ioCount := Suc (ioCount w)\<rparr>))"
  by (simp add: saveIndexFileToDrive_def saveJson_def nowIso_def)

lemma readJson_cache: "indexCache (snd (readJson w)) = indexCache w"
  by (simp add: readJson_def)

lemma loadIndexFileFromDrive_cache:
  "indexCache (snd (loadIndexFileFromDrive rt w)) = indexCache w"
  using readJson_cache[of w]
  by (auto simp: loadIndexFileFromDrive_def split: prod.splits sum.splits option.splits json.splits)

lemma ensureIndexLoaded_Inl:
  "ensureIndexLoaded rt w = (Inl e, w1) \<Longrightarrow> indexCache w1 = None \<and> indexCache w = None"
  using loadIndexFileFromDrive_cache[of rt w]
  by (auto simp: ensureIndexLoaded_def saveIndexFileToDrive_result nowIso_def
      split: option.splits prod.splits sum.splits if_splits)

lemma ensureIndexLoaded_Inr:
  "ensureIndexLoaded rt w = (Inr u, w1) \<Longrightarrow> \<exists>c. indexCache w1 = Some c"
  by (auto simp: ensureIndexLoaded_def split: option.splits prod.splits sum.splits)


lemma saveIndex_loaded:
  assumes "ensureIndexLoaded rt w = (Inr (), w1)" and "indexCache w1 = Some c"
  shows "saveIndex rt recs w =
    (let w2 = (if fm_createdAt (fileMeta c) \<noteq> [] then w1 else ticked w1);
         created = (if fm_createdAt (fileMeta c) \<noteq> [] then fm_createdAt (fileMeta c)
                    else clock w1 (ticks w1));
         updated = clock w2 (ticks w2);
         w3 = ticked w2
     in case validate_loop rt recs [] of
          Inl e \<Rightarrow> (Inl e, w3)
        | Inr ds \<Rightarrow>
            if driveFails w3 (ioCount w3) then (Inl DriveError, called (ticked w3))
            else case buildCachedEmbeddings rt ds of
                   Inl e \<Rightarrow>
                     (Inl e,
                      called ((ticked w3)
                        \<lparr>driveFile := Some (indexFileToJson EMBEDDING_INDEX_SCHEMA_VERSION
                                              created (clock w3 (ticks w3)) ds)\<rparr>))
                 | Inr es \<Rightarrow>
                     (Inr (),
                      called ((ticked w3)
                        \<lparr>driveFile := Some (indexFileToJson EMBEDDING_INDEX_SCHEMA_VERSION
                                              created (clock w3 (ticks w3)) ds)\<rparr>)
                        \<lparr>indexCache :=
                           Some \<lparr>fileMeta =
                                   \<lparr>fm_schemaVersion = EMBEDDING_INDEX_SCHEMA_VERSION,
                                    fm_createdAt = created, fm_updatedAt = updated\<rparr>,
                                 embeddings = es\<rparr>\<rparr>))"
  using assms
  by (simp add: saveIndex_def saveIndexFileToDrive_result nowIso_def ticked_def called_def Let_def
      split: sum.splits)

lemma ticked_fields:
  "indexCache (ticked w) = indexCache w" "driveFile (ticked w) = driveFile w"
  "ioCount (ticked w) = ioCount w" "driveFails (ticked w) = driveFails w"
  "clock (ticked w) = clock w" "ticks (ticked w) = Suc (ticks w)"
  by (simp_all add: ticked_def)

lemma called_fields:
  "indexCache (called w) = indexCache w" "driveFile (called w) = driveFile w"
  "ioCount (called w) = Suc (ioCount w)" "driveFails (called w) = driveFails w"
  "clock (called w) = clock w" "ticks (called w) = ticks w"
  by (simp_all add: called_def)

lemma saveIndex_not_loaded:
  "ensureIndexLoaded rt w = (Inl e, w1) \<Longrightarrow> saveIndex rt recs w = (Inl e, w1)"
  by (simp add: saveIndex_def)

lemma saveIndex_failure_cache:
  assumes "fst (saveIndex rt recs w) = Inl e"
  shows "indexCache (snd (saveIndex rt recs w)) = indexCache (snd (ensureIndexLoaded rt w))"
proof (cases "ensureIndexLoaded rt w")
  case (Pair r w1)
  show ?thesis
  proof (cases r)
    case (Inl e')
    then show ?thesis using Pair by (simp add: saveIndex_not_loaded)
  next
    case (Inr u)
    with Pair obtain c where c: "indexCache w1 = Some c"
      using ensureIndexLoaded_Inr by blast
    have l: "ensureIndexLoaded rt w = (Inr (), w1)" using Pair Inr by simp
    show ?thesis
      using assms unfolding saveIndex_loaded[OF l c] Let_def l
      by (auto simp: ticked_fields called_fields c split: sum.splits if_splits)
  qed
qed

lemma saveIndex_invalid:
  assumes "ensureIndexLoaded rt w = (Inr (), w1)"
    and "\<exists>r \<in> set recs. isl (zEmbeddingRecord rt r)"
  shows "\<exists>iss w'. saveIndex rt recs w = (Inl (InvalidRecord iss), w') \<and>
           driveFile w' = driveFile w1 \<and> ioCount w' = ioCount w1 \<and>
           indexCache w' = indexCache w1"
proof -
  obtain c where c: "indexCache w1 = Some c"
    using ensureIndexLoaded_Inr assms(1) by blast
  obtain iss where "validate_loop rt recs [] = Inl (InvalidRecord iss)"
    using validate_loop_invalid[OF assms(2)] by blast
  then show ?thesis
    unfolding saveIndex_loaded[OF assms(1) c] Let_def
    by (simp add: ticked_fields)
qed

lemma saveIndex_success:
  assumes "saveIndex rt recs w = (Inr (), w')"
  shows "\<exists>c' u ds. indexCache w' = Some c' \<and>
           map (zEmbeddingRecord rt) recs = map Inr ds \<and>
           embeddings c' = map (cached rt) ds \<and>
           fm_schemaVersion (fileMeta c') = EMBEDDING_INDEX_SCHEMA_VERSION \<and>
           driveFile w' =
             Some (indexFileToJson EMBEDDING_INDEX_SCHEMA_VERSION (fm_createdAt (fileMeta c')) u ds)"
proof (cases "ensureIndexLoaded rt w")
  case (Pair r w1)
  show ?thesis
  proof (cases r)
    case (Inl e')
    then show ?thesis using Pair assms by (simp add: saveIndex_not_loaded)
  next
    case (Inr u)
    with Pair obtain c where c: "indexCache w1 = Some c"
      using ensureIndexLoaded_Inr by blast
    have l: "ensureIndexLoaded rt w = (Inr (), w1)" using Pair Inr by simp
    show ?thesis
      using assms unfolding saveIndex_loaded[OF l c] Let_def
      by (auto simp: ticked_fields called_fields split: sum.splits if_splits
          dest!: validate_loop_Inr buildCachedEmbeddings_Inr)
  qed
qed

subsection \<open>saveIndex is all or nothing\<close>

lemma saveIndex_write_fails:
  assumes "ensureIndexLoaded rt w = (Inr (), w1)"
    and "map (zEmbeddingRecord rt) recs = map Inr ds"
    and "driveFails w1 (ioCount w1)"
  shows "\<exists>w'. saveIndex rt recs w = (Inl DriveError, w') \<and>
           indexCache w' = indexCache w1 \<and> driveFile w' = driveFile w1"
proof -
  obtain c where c: "indexCache w1 = Some c"
    using ensureIndexLoaded_Inr assms(1) by blast
  have "validate_loop rt recs [] = Inr ds"
    using validate_loop_valid[OF assms(2), of "[]"] by simp
  then show ?thesis
    unfolding saveIndex_loaded[OF assms(1) c] Let_def using assms(3)
    by (simp add: ticked_fields called_fields)
qed

lemma exampleRecord_contract:
  "vec \<noteq> [] \<Longrightarrow> i \<noteq> [] \<Longrightarrow> sid \<noteq> [] \<Longrightarrow>
   satisfiesContract exampleRuntime (exampleRecord i sid vec)"
  by (cases vec; cases i; cases sid)
     (simp_all add: satisfiesContract_def exampleRecord_def exampleRuntime_def)

lemma example_world_loaded:
  "ensureIndexLoaded rt (example_world rs failing) = (Inr (), example_world rs failing)"
  by (simp add: ensureIndexLoaded_def example_world_def)

text \<open>
  C2. \<open>saveIndex\<close> first makes sure the index is loaded; call the state after that
  step the previous state (it is the state before the call when the cache is already
  loaded). Whenever \<open>saveIndex\<close> throws, the cache is the previous one. When some
  record of the list fails the EmbeddingRecord contract, \<open>saveIndex\<close> throws the
  validation error and has made no call to Drive since the previous state: the stored
  document and the cache are unchanged. When every record is valid and the write to Drive
  fails, \<open>saveIndex\<close> throws the Drive error, and the cache and the stored document are
  the previous ones. When \<open>saveIndex\<close> returns, Drive holds the document with the
  validated records and the cache holds the same records.
\<close>

theorem saveIndex_all_or_nothing:
  "(\<forall>e. fst (saveIndex rt recs w) = Inl e \<longrightarrow>
        indexCache (snd (saveIndex rt recs w)) = indexCache (snd (ensureIndexLoaded rt w))) \<and>
   (\<forall>w1. ensureIndexLoaded rt w = (Inr (), w1) \<and>
          (\<exists>r \<in> set recs. isl (zEmbeddingRecord rt r)) \<longrightarrow>
        (\<exists>iss w'. saveIndex rt recs w = (Inl (InvalidRecord iss), w') \<and>
           driveFile w' = driveFile w1 \<and> ioCount w' = ioCount w1 \<and>
           indexCache w' = indexCache w1)) \<and>
   (\<forall>w1 ds. ensureIndexLoaded rt w = (Inr (), w1) \<and>
          map (zEmbeddingRecord rt) recs = map Inr ds \<and> driveFails w1 (ioCount w1) \<longrightarrow>
        (\<exists>w'. saveIndex rt recs w = (Inl DriveError, w') \<and>
           indexCache w' = indexCache w1 \<and> driveFile w' = driveFile w1)) \<and>
   (\<forall>w'. saveIndex rt recs w = (Inr (), w') \<longrightarrow>
        (\<exists>c' u ds. indexCache w' = Some c' \<and>
           map (zEmbeddingRecord rt) recs = map Inr ds \<and>
           embeddings c' = map (cached rt) ds \<and>
           fm_schemaVersion (fileMeta c') = EMBEDDING_INDEX_SCHEMA_VERSION \<and>
           driveFile w' =
             Some (indexFileToJson EMBEDDING_INDEX_SCHEMA_VERSION
                     (fm_createdAt (fileMeta c')) u ds)))"
  using saveIndex_failure_cache[of rt recs w] saveIndex_invalid[of rt w _ recs]
    saveIndex_write_fails[of rt w _ recs] saveIndex_success[of rt recs w]
  by blast

theorem saveIndex_all_or_nothing_witness:
  "fst (saveIndex exampleRuntime [JStr ''junk'']
          (example_world [exampleRecord ''a'' ''n1'' [1, 0]] [])) = Inl (InvalidRecord [''(root)'']) \<and>
   indexCache (snd (saveIndex exampleRuntime [JStr ''junk'']
          (example_world [exampleRecord ''a'' ''n1'' [1, 0]] []))) =
     Some (example_cache [exampleRecord ''a'' ''n1'' [1, 0]]) \<and>
   fst (saveIndex exampleRuntime [recordToJson (exampleRecord ''b'' ''n2'' [0, 1])]
          (example_world [exampleRecord ''a'' ''n1'' [1, 0]] [0])) = Inl DriveError \<and>
   indexCache (snd (saveIndex exampleRuntime [recordToJson (exampleRecord ''b'' ''n2'' [0, 1])]
          (example_world [exampleRecord ''a'' ''n1'' [1, 0]] [0]))) =
     Some (example_cache [exampleRecord ''a'' ''n1'' [1, 0]])"
proof -
  let ?a = "exampleRecord ''a'' ''n1'' [1, 0]"
  let ?b = "exampleRecord ''b'' ''n2'' [0, 1]"
  have p: "zEmbeddingRecord exampleRuntime (recordToJson ?b) = Inr ?b"
    by (rule zEmbeddingRecord_recordToJson) (simp add: exampleRecord_contract)
  have j: "zEmbeddingRecord exampleRuntime (JStr ''junk'') = Inl [''(root)'']"
    by (simp add: zEmbeddingRecord_def)
  have c: "indexCache (example_world [?a] failing) = Some (example_cache [?a])" for failing
    by (simp add: example_world_def)
  have 1: "fst (saveIndex exampleRuntime [JStr ''junk''] (example_world [?a] [])) =
             Inl (InvalidRecord [''(root)''])"
    unfolding saveIndex_loaded[OF example_world_loaded c] Let_def by (simp add: j)
  have 2: "fst (saveIndex exampleRuntime [recordToJson ?b] (example_world [?a] [0])) =
             Inl DriveError"
    unfolding saveIndex_loaded[OF example_world_loaded c] Let_def
    by (simp add: p ticked_fields) (simp add: example_world_def)
  show ?thesis
    using saveIndex_all_or_nothing[of exampleRuntime "[JStr ''junk'']" "example_world [?a] []"]
      saveIndex_all_or_nothing[of exampleRuntime "[recordToJson ?b]" "example_world [?a] [0]"]
      1 2
    by (simp add: example_world_loaded c)
qed


subsection \<open>saveIndex, then loadIndex\<close>

lemma loadIndex_loaded:
  "indexCache w = Some c \<Longrightarrow> loadIndex rt w = (Inr (map cached_record (embeddings c)), w)"
  by (simp add: loadIndex_def ensureIndexLoaded_def)

lemma map_cached_record_cached: "map cached_record (map (cached rt) ds) = ds"
  by (induction ds) (simp_all add: cached_def)

lemma map_cached_record_cached_comp: "map (cached_record \<circ> cached rt) ds = ds"
  by (induction ds) (simp_all add: cached_def)

lemma parse_map_recordToJson:
  "\<forall>r \<in> set R. satisfiesContract rt r \<Longrightarrow>
   map (zEmbeddingRecord rt) (map recordToJson R) = map Inr R"
  by (induction R) (simp_all add: zEmbeddingRecord_recordToJson)

lemma contract_vector_nonempty: "satisfiesContract rt r \<Longrightarrow> vector r \<noteq> []"
  by (auto simp: satisfiesContract_def)

lemma saveIndex_succeeds:
  assumes "ensureIndexLoaded rt w = (Inr (), w1)"
    and "map (zEmbeddingRecord rt) recs = map Inr ds"
    and "\<not> driveFails w1 (ioCount w1)"
  shows "\<exists>w'. saveIndex rt recs w = (Inr (), w')"
proof -
  obtain c where c: "indexCache w1 = Some c"
    using ensureIndexLoaded_Inr assms(1) by blast
  have v: "validate_loop rt recs [] = Inr ds"
    using validate_loop_valid[OF assms(2), of "[]"] by simp
  have "\<forall>r \<in> set ds. vector r \<noteq> []"
  proof
    fix r assume "r \<in> set ds"
    then have "Inr r \<in> set (map (zEmbeddingRecord rt) recs)"
      unfolding assms(2) by simp
    then obtain j where "zEmbeddingRecord rt j = Inr r" by auto
    then show "vector r \<noteq> []"
      using zEmbeddingRecord_satisfiesContract contract_vector_nonempty by blast
  qed
  then have b: "buildCachedEmbeddings rt ds = Inr (map (cached rt) ds)"
    by (rule buildCachedEmbeddings_nonempty)
  show ?thesis
    unfolding saveIndex_loaded[OF assms(1) c] Let_def using assms(3)
    by (simp add: v b ticked_fields)
qed

text \<open>
  C8. For every list \<open>R\<close> of records that satisfy the EmbeddingRecord contract: when
  \<open>saveIndex R\<close> returns, \<open>loadIndex\<close> in the resulting state returns \<open>R\<close>,
  element for element and in the same order. And \<open>saveIndex R\<close> does return when the
  index loads and the call to Drive that writes the document does not fail.
\<close>

theorem saveIndex_loadIndex_roundtrip:
  assumes "\<forall>r \<in> set R. satisfiesContract rt r"
  shows "(\<forall>w'. saveIndex rt (map recordToJson R) w = (Inr (), w') \<longrightarrow>
              loadIndex rt w' = (Inr R, w')) \<and>
         (\<forall>w1. ensureIndexLoaded rt w = (Inr (), w1) \<and> \<not> driveFails w1 (ioCount w1) \<longrightarrow>
              (\<exists>w'. saveIndex rt (map recordToJson R) w = (Inr (), w')))"
proof (intro conjI allI impI)
  fix w'
  assume "saveIndex rt (map recordToJson R) w = (Inr (), w')"
  from saveIndex_success[OF this] obtain c' ds where
    c: "indexCache w' = Some c'" and
    p: "map (zEmbeddingRecord rt) (map recordToJson R) = map Inr ds" and
    e: "embeddings c' = map (cached rt) ds"
    by blast
  have "map Inr ds = (map Inr R :: (issues + EmbeddingRecord) list)"
    using p parse_map_recordToJson[OF assms] by simp
  then have "ds = R" by (simp add: inj_map_eq_map)
  then show "loadIndex rt w' = (Inr R, w')"
    using loadIndex_loaded[OF c, of rt] e by (simp add: map_cached_record_cached_comp)
next
  fix w1
  assume "ensureIndexLoaded rt w = (Inr (), w1) \<and> \<not> driveFails w1 (ioCount w1)"
  then show "\<exists>w'. saveIndex rt (map recordToJson R) w = (Inr (), w')"
    using saveIndex_succeeds parse_map_recordToJson[OF assms] by blast
qed

theorem saveIndex_loadIndex_roundtrip_witness:
  "\<exists>w'. saveIndex exampleRuntime
           (map recordToJson [exampleRecord ''b'' ''n2'' [0, 1], exampleRecord ''c'' ''n3'' [1]])
           (example_world [exampleRecord ''a'' ''n1'' [1, 0]] []) = (Inr (), w') \<and>
         loadIndex exampleRuntime w' =
           (Inr [exampleRecord ''b'' ''n2'' [0, 1], exampleRecord ''c'' ''n3'' [1]], w')"
proof -
  let ?R = "[exampleRecord ''b'' ''n2'' [0, 1], exampleRecord ''c'' ''n3'' [1]]"
  let ?w = "example_world [exampleRecord ''a'' ''n1'' [1, 0]] []"
  have v: "\<forall>r \<in> set ?R. satisfiesContract exampleRuntime r"
    by (simp add: exampleRecord_contract)
  have d: "\<not> driveFails ?w (ioCount ?w)" by (simp add: example_world_def)
  from saveIndex_loadIndex_roundtrip[OF v, of ?w] example_world_loaded d
  show ?thesis by blast
qed

subsection \<open>Loading keeps the valid records\<close>

lemma zEmbeddingIndexMeta_Inr_not_null: "zEmbeddingIndexMeta raw = Inr m \<Longrightarrow> raw \<noteq> JNull"
  by (auto simp: zEmbeddingIndexMeta_def)

lemma loadIndexFileFromDrive_read:
  assumes "readJson w = (Inr (Some raw), w1)" and "raw \<noteq> JNull"
  shows "loadIndexFileFromDrive rt w =
           (case zEmbeddingIndexMeta raw of
              Inl iss \<Rightarrow> (Inl (CorruptIndex iss), w1)
            | Inr m \<Rightarrow>
                (Inr (Some \<lparr>file_schemaVersion = meta_schemaVersion m,
                            file_createdAt = meta_createdAt m,
                            file_updatedAt = meta_updatedAt m,
                            records = fst (load_loop rt (meta_records m) [] 0 [])\<rparr>),
                 w1\<lparr>warnLog :=
                      warnLog w1 @ snd (snd (load_loop rt (meta_records m) [] 0 []))\<rparr>))"
  using assms
  by (cases raw) (simp_all add: loadIndexFileFromDrive_def split: prod.splits sum.splits)

lemma load_loop_contract:
  assumes "r \<in> set (fst (load_loop rt raws [] 0 []))"
  shows "satisfiesContract rt r"
proof -
  have "Inr r \<in> set (map Inr (fst (load_loop rt raws [] 0 [])) :: (issues + EmbeddingRecord) list)"
    using assms by simp
  then have "Inr r \<in> set (map (zEmbeddingRecord rt) raws)"
    unfolding load_loop_eq by simp
  then obtain j where "zEmbeddingRecord rt j = Inr r" by auto
  then show ?thesis by (rule zEmbeddingRecord_satisfiesContract)
qed

lemma ensureIndexLoaded_first_load:
  assumes "indexCache w = None" and "readJson w = (Inr (Some raw), w1)"
    and "zEmbeddingIndexMeta raw = Inr m"
  shows "ensureIndexLoaded rt w =
           (Inr (),
            w1\<lparr>warnLog := warnLog w1 @ snd (snd (load_loop rt (meta_records m) [] 0 [])),
               indexCache :=
                 Some \<lparr>fileMeta = \<lparr>fm_schemaVersion = meta_schemaVersion m,
                                   fm_createdAt = meta_createdAt m,
                                   fm_updatedAt = meta_updatedAt m\<rparr>,
                       embeddings = map (cached rt) (fst (load_loop rt (meta_records m) [] 0 []))\<rparr>\<rparr>)"
proof -
  have n: "raw \<noteq> JNull" using assms(3) by (rule zEmbeddingIndexMeta_Inr_not_null)
  have "\<forall>r \<in> set (fst (load_loop rt (meta_records m) [] 0 [])). vector r \<noteq> []"
    using load_loop_contract contract_vector_nonempty by blast
  then have b: "buildCachedEmbeddings rt (fst (load_loop rt (meta_records m) [] 0 [])) =
                  Inr (map (cached rt) (fst (load_loop rt (meta_records m) [] 0 [])))"
    by (rule buildCachedEmbeddings_nonempty)
  show ?thesis
    using assms(1,3) b
    by (simp add: ensureIndexLoaded_def loadIndexFileFromDrive_read[OF assms(2) n])
qed

lemma fresh_world_read:
  "readJson (fresh_world doc) = (Inr doc, called (fresh_world doc))"
  by (simp add: readJson_def fresh_world_def called_def)

lemma example_document_meta:
  "zEmbeddingIndexMeta example_document =
     Inr \<lparr>meta_schemaVersion = 1, meta_createdAt = ''2025-12-11T23:28:57.318Z'',
          meta_updatedAt = ''2025-12-11T23:28:57.318Z'',
          meta_records =
            [recordToJson (exampleRecord ''a'' ''n1'' [1, 0]),
             JObj [(''id'', JStr ''x'')],
             recordToJson (exampleRecord ''b'' ''n2'' [0, 1]),
             recordToJson (exampleRecord ''c'' ''n3'' [1, 1])]\<rparr>"
  by (simp add: zEmbeddingIndexMeta_def example_document_def z_int_min1_def z_string_def
      z_array_unknown_def)

lemma example_malformed:
  "zEmbeddingRecord exampleRuntime (JObj [(''id'', JStr ''x'')]) =
     Inl [''sourceType'', ''sourceId'', ''vector'', ''createdAt'']"
  by (simp add: zEmbeddingRecord_def z_string_min1_def z_default_def z_enum_def
      z_array_number_min1_def z_string_datetime_def z_optional_def issue_def)

lemma zEmbeddingRecord_exampleDevRuntime:
  "zEmbeddingRecord exampleDevRuntime = zEmbeddingRecord exampleRuntime"
proof
  fix j
  show "zEmbeddingRecord exampleDevRuntime j = zEmbeddingRecord exampleRuntime j"
    by (cases j) (simp_all add: zEmbeddingRecord_def exampleDevRuntime_def)
qed

lemma parse_filter_recordToJson:
  "filter (\<lambda>p. \<not> isl p) (map (zEmbeddingRecord rt) (map recordToJson R)) =
     map Inr (filter (satisfiesContract rt) R)"
proof (induction R)
  case Nil
  show ?case by simp
next
  case (Cons r R)
  show ?case
  proof (cases "satisfiesContract rt r")
    case True
    then show ?thesis using Cons by (simp add: zEmbeddingRecord_recordToJson)
  next
    case False
    then have "isl (zEmbeddingRecord rt (recordToJson r))"
      using zEmbeddingRecord_recordToJson_same[of rt r]
      by (cases "zEmbeddingRecord rt (recordToJson r)") auto
    then show ?thesis using Cons False by simp
  qed
qed

lemma load_loop_typed:
  "fst (load_loop rt (map recordToJson R) [] 0 []) = filter (satisfiesContract rt) R"
proof -
  have "map Inr (fst (load_loop rt (map recordToJson R) [] 0 [])) =
          (map Inr (filter (satisfiesContract rt) R) :: (issues + EmbeddingRecord) list)"
    unfolding load_loop_eq parse_filter_recordToJson by simp
  then show ?thesis by (simp only: inj_map_eq_map[OF inj_Inr])
qed

text \<open>
  C6 (as amended). Let Drive hold a document, and let the read succeed. When the outer
  shape of the document is valid, \<open>loadIndexFileFromDrive\<close> returns a file whose
  records are exactly the entries of \<open>records\<close> that satisfy the EmbeddingRecord
  contract, in their order: the results of \<open>zEmbeddingRecord\<close> on the entries it
  accepts, which for entries that are records written out are the records that satisfy
  the contract. The other entries are dropped and the load does not fail. For each entry
  dropped, in the order of the entries, the issues found are written with
  \<open>console.warn\<close> when \<open>isDev\<close> holds, and nothing else is written; when
  \<open>isDev\<close> does not hold, nothing is written. In a process that has not loaded the
  index yet \<open>loadIndex\<close> returns the records kept. When the document is not JSON
  \<open>null\<close> and its outer shape is invalid, the load throws the corrupt-index error,
  and so does \<open>loadIndex\<close>. When the document is JSON \<open>null\<close>, the load
  returns \<open>null\<close>, as for a file that does not exist.
\<close>

theorem load_drops_malformed_records:
  assumes "readJson w = (Inr (Some raw), w1)"
  shows "(\<forall>m. zEmbeddingIndexMeta raw = Inr m \<longrightarrow>
            (\<exists>file warnings.
               loadIndexFileFromDrive rt w =
                 (Inr (Some file), w1\<lparr>warnLog := warnLog w1 @ warnings\<rparr>) \<and>
               map Inr (records file) =
                 filter (\<lambda>p. \<not> isl p) (map (zEmbeddingRecord rt) (meta_records m)) \<and>
               (\<forall>R. meta_records m = map recordToJson R \<longrightarrow>
                    records file = filter (satisfiesContract rt) R) \<and>
               (isDev rt \<longrightarrow>
                  map Inl warnings = filter isl (map (zEmbeddingRecord rt) (meta_records m))) \<and>
               (\<not> isDev rt \<longrightarrow> warnings = []) \<and>
               (indexCache w = None \<longrightarrow>
                  (\<exists>w'. loadIndex rt w = (Inr (records file), w') \<and>
                        warnLog w' = warnLog w1 @ warnings)))) \<and>
         (\<forall>iss. raw \<noteq> JNull \<and> zEmbeddingIndexMeta raw = Inl iss \<longrightarrow>
            loadIndexFileFromDrive rt w = (Inl (CorruptIndex iss), w1) \<and>
            (indexCache w = None \<longrightarrow> loadIndex rt w = (Inl (CorruptIndex iss), w1))) \<and>
         (raw = JNull \<longrightarrow> loadIndexFileFromDrive rt w = (Inr None, w1))"
proof (intro conjI allI impI)
  fix m
  assume m: "zEmbeddingIndexMeta raw = Inr m"
  then have n: "raw \<noteq> JNull" by (rule zEmbeddingIndexMeta_Inr_not_null)
  let ?file = "\<lparr>file_schemaVersion = meta_schemaVersion m, file_createdAt = meta_createdAt m,
                file_updatedAt = meta_updatedAt m,
                records = fst (load_loop rt (meta_records m) [] 0 [])\<rparr>"
  let ?ws = "snd (snd (load_loop rt (meta_records m) [] 0 []))"
  have 1: "loadIndexFileFromDrive rt w =
             (Inr (Some ?file), w1\<lparr>warnLog := warnLog w1 @ ?ws\<rparr>)"
    using m by (simp add: loadIndexFileFromDrive_read[OF assms n])
  have 2: "map Inr (records ?file) =
             filter (\<lambda>p. \<not> isl p) (map (zEmbeddingRecord rt) (meta_records m))"
    using load_loop_eq[of rt "meta_records m" "[]" 0 "[]"] by simp
  have 3: "\<forall>R. meta_records m = map recordToJson R \<longrightarrow>
             records ?file = filter (satisfiesContract rt) R"
    by (simp add: load_loop_typed)
  have 4: "isDev rt \<longrightarrow>
             map Inl ?ws = filter isl (map (zEmbeddingRecord rt) (meta_records m))"
    using load_loop_warnings[of rt "meta_records m" "[]" 0 "[]"] by simp
  have "\<not> isDev rt \<longrightarrow> map Inl ?ws = ([] :: (issues + EmbeddingRecord) list)"
    using load_loop_warnings[of rt "meta_records m" "[]" 0 "[]"] by simp
  then have 5: "\<not> isDev rt \<longrightarrow> ?ws = []" by simp
  have 6: "indexCache w = None \<longrightarrow>
             (\<exists>w'. loadIndex rt w = (Inr (records ?file), w') \<and>
                   warnLog w' = warnLog w1 @ ?ws)"
  proof
    assume c: "indexCache w = None"
    show "\<exists>w'. loadIndex rt w = (Inr (records ?file), w') \<and> warnLog w' = warnLog w1 @ ?ws"
      by (simp add: loadIndex_def ensureIndexLoaded_first_load[OF c assms m]
          map_cached_record_cached_comp)
  qed
  from 1 2 3 4 5 6
  show "\<exists>file warnings.
               loadIndexFileFromDrive rt w =
                 (Inr (Some file), w1\<lparr>warnLog := warnLog w1 @ warnings\<rparr>) \<and>
               map Inr (records file) =
                 filter (\<lambda>p. \<not> isl p) (map (zEmbeddingRecord rt) (meta_records m)) \<and>
               (\<forall>R. meta_records m = map recordToJson R \<longrightarrow>
                    records file = filter (satisfiesContract rt) R) \<and>
               (isDev rt \<longrightarrow>
                  map Inl warnings = filter isl (map (zEmbeddingRecord rt) (meta_records m))) \<and>
               (\<not> isDev rt \<longrightarrow> warnings = []) \<and>
               (indexCache w = None \<longrightarrow>
                  (\<exists>w'. loadIndex rt w = (Inr (records file), w') \<and>
                        warnLog w' = warnLog w1 @ warnings))"
    by (intro exI[of _ ?file] exI[of _ ?ws] conjI)
next
  fix iss
  assume i: "raw \<noteq> JNull \<and> zEmbeddingIndexMeta raw = Inl iss"
  then have n: "raw \<noteq> JNull" by simp
  show l: "loadIndexFileFromDrive rt w = (Inl (CorruptIndex iss), w1)"
    using i by (simp add: loadIndexFileFromDrive_read[OF assms n])
  assume "indexCache w = None"
  then show "loadIndex rt w = (Inl (CorruptIndex iss), w1)"
    using l by (simp add: loadIndex_def ensureIndexLoaded_def)
next
  assume "raw = JNull"
  then show "loadIndexFileFromDrive rt w = (Inr None, w1)"
    using assms by (simp add: loadIndexFileFromDrive_def)
qed

text \<open>
  The example document, loaded in development mode: the three valid records are returned
  and the issues of the fourth entry are written with \<open>console.warn\<close>.
\<close>

theorem load_drops_malformed_records_witness:
  "\<exists>w'. loadIndex exampleDevRuntime (fresh_world (Some example_document)) =
          (Inr [exampleRecord ''a'' ''n1'' [1, 0], exampleRecord ''b'' ''n2'' [0, 1],
                exampleRecord ''c'' ''n3'' [1, 1]], w') \<and>
        warnLog w' = [[''sourceType'', ''sourceId'', ''vector'', ''createdAt'']]"
proof -
  let ?w = "fresh_world (Some example_document)"
  let ?raws = "[recordToJson (exampleRecord ''a'' ''n1'' [1, 0]),
                JObj [(''id'', JStr ''x'')],
                recordToJson (exampleRecord ''b'' ''n2'' [0, 1]),
                recordToJson (exampleRecord ''c'' ''n3'' [1, 1])]"
  have c: "indexCache ?w = None" by (simp add: fresh_world_def)
  have d: "isDev exampleDevRuntime" by (simp add: exampleDevRuntime_def)
  have p: "zEmbeddingRecord exampleRuntime (recordToJson (exampleRecord i sid vec)) =
             Inr (exampleRecord i sid vec)" if "vec \<noteq> []" "i \<noteq> []" "sid \<noteq> []" for i sid vec
    using that by (intro zEmbeddingRecord_recordToJson exampleRecord_contract)
  have parsed: "map (zEmbeddingRecord exampleDevRuntime) ?raws =
          [Inr (exampleRecord ''a'' ''n1'' [1, 0]),
           Inl [''sourceType'', ''sourceId'', ''vector'', ''createdAt''],
           Inr (exampleRecord ''b'' ''n2'' [0, 1]),
           Inr (exampleRecord ''c'' ''n3'' [1, 1])]"
    unfolding zEmbeddingRecord_exampleDevRuntime list.map
    by (simp add: p example_malformed)
  note t = load_drops_malformed_records[OF fresh_world_read, where rt = exampleDevRuntime,
      THEN conjunct1, rule_format, OF example_document_meta]
  from t obtain fl :: EmbeddingIndexFile and ws where
    f0: "map Inr (records fl) =
          filter (\<lambda>p. \<not> isl p)
            (map (zEmbeddingRecord exampleDevRuntime)
               (meta_records
                  \<lparr>meta_schemaVersion = 1, meta_createdAt = ''2025-12-11T23:28:57.318Z'',
                   meta_updatedAt = ''2025-12-11T23:28:57.318Z'',
                   meta_records = ?raws\<rparr>))"
    and w0: "isDev exampleDevRuntime \<longrightarrow>
          map Inl ws =
          filter isl
            (map (zEmbeddingRecord exampleDevRuntime)
               (meta_records
                  \<lparr>meta_schemaVersion = 1, meta_createdAt = ''2025-12-11T23:28:57.318Z'',
                   meta_updatedAt = ''2025-12-11T23:28:57.318Z'',
                   meta_records = ?raws\<rparr>))"
    and l0: "indexCache ?w = None \<longrightarrow>
              (\<exists>w'. loadIndex exampleDevRuntime ?w = (Inr (records fl), w') \<and>
                    warnLog w' = warnLog (called (fresh_world (Some example_document))) @ ws)"
    by (elim exE conjE) (rule that)
  from l0 c obtain w' where l: "loadIndex exampleDevRuntime ?w = (Inr (records fl), w')"
    and lw: "warnLog w' = warnLog (called (fresh_world (Some example_document))) @ ws"
    by blast
  have "map Inr (records fl) =
          (map Inr [exampleRecord ''a'' ''n1'' [1, 0], exampleRecord ''b'' ''n2'' [0, 1],
                    exampleRecord ''c'' ''n3'' [1, 1]] :: (issues + EmbeddingRecord) list)"
    using f0 unfolding EmbeddingIndexMeta.simps parsed by simp
  then have r: "records fl = [exampleRecord ''a'' ''n1'' [1, 0], exampleRecord ''b'' ''n2'' [0, 1],
                    exampleRecord ''c'' ''n3'' [1, 1]]"
    by (simp only: inj_map_eq_map[OF inj_Inr])
  have "map Inl ws =
          (map Inl [[''sourceType'', ''sourceId'', ''vector'', ''createdAt'']]
            :: (issues + EmbeddingRecord) list)"
    using w0 d unfolding EmbeddingIndexMeta.simps parsed by simp
  then have "ws = [[''sourceType'', ''sourceId'', ''vector'', ''createdAt'']]"
    by (simp only: inj_map_eq_map[OF inj_Inl])
  then have "warnLog w' = [[''sourceType'', ''sourceId'', ''vector'', ''createdAt'']]"
    using lw by (simp add: called_def fresh_world_def)
  with l r show ?thesis by (intro exI[of _ w']) simp
qed

text \<open>
  A stored document that is JSON \<open>null\<close> has no valid outer shape, yet the load
  returns \<open>null\<close> as for a file that does not exist: \<open>raw == null\<close> is tested
  before the shape. And a process that is not in development mode loads the example
  document, drops its malformed entry and writes no warning.
\<close>

theorem load_null_document_counterexample:
  "zEmbeddingIndexMeta JNull = Inl [''(root)''] \<and>
   loadIndexFileFromDrive exampleRuntime (fresh_world (Some JNull)) =
     (Inr None, called (fresh_world (Some JNull))) \<and>
   \<not> isDev exampleRuntime \<and>
   isl (zEmbeddingRecord exampleRuntime (JObj [(''id'', JStr ''x'')])) \<and>
   loadIndexFileFromDrive exampleRuntime (fresh_world (Some example_document)) =
     (Inr (Some \<lparr>file_schemaVersion = 1, file_createdAt = ''2025-12-11T23:28:57.318Z'',
                 file_updatedAt = ''2025-12-11T23:28:57.318Z'',
                 records = [exampleRecord ''a'' ''n1'' [1, 0], exampleRecord ''b'' ''n2'' [0, 1],
                            exampleRecord ''c'' ''n3'' [1, 1]]\<rparr>),
      called (fresh_world (Some example_document))) \<and>
   warnLog (called (fresh_world (Some example_document))) = []"
proof -
  have p: "zEmbeddingRecord exampleRuntime (recordToJson (exampleRecord i sid vec)) =
             Inr (exampleRecord i sid vec)" if "vec \<noteq> []" "i \<noteq> []" "sid \<noteq> []" for i sid vec
    using that by (intro zEmbeddingRecord_recordToJson exampleRecord_contract)
  have n: "example_document \<noteq> JNull" by (simp add: example_document_def)
  have l: "load_loop exampleRuntime
             [recordToJson (exampleRecord ''a'' ''n1'' [1, 0]),
              JObj [(''id'', JStr ''x'')],
              recordToJson (exampleRecord ''b'' ''n2'' [0, 1]),
              recordToJson (exampleRecord ''c'' ''n3'' [1, 1])] [] 0 [] =
           ([exampleRecord ''a'' ''n1'' [1, 0], exampleRecord ''b'' ''n2'' [0, 1],
             exampleRecord ''c'' ''n3'' [1, 1]], 1, [])"
    by (simp add: p example_malformed exampleRuntime_fields)
  have w: "warnLog (called (fresh_world (Some example_document))) = []"
    by (simp add: called_def fresh_world_def)
  have "loadIndexFileFromDrive exampleRuntime (fresh_world (Some example_document)) =
     (Inr (Some \<lparr>file_schemaVersion = 1, file_createdAt = ''2025-12-11T23:28:57.318Z'',
                 file_updatedAt = ''2025-12-11T23:28:57.318Z'',
                 records = [exampleRecord ''a'' ''n1'' [1, 0], exampleRecord ''b'' ''n2'' [0, 1],
                            exampleRecord ''c'' ''n3'' [1, 1]]\<rparr>),
      called (fresh_world (Some example_document)))"
    unfolding loadIndexFileFromDrive_read[OF fresh_world_read n] example_document_meta
    by (simp add: l w del: load_loop.simps)
  then show ?thesis
    by (simp add: zEmbeddingIndexMeta_def loadIndexFileFromDrive_def fresh_world_read
        example_malformed exampleRuntime_fields w)
qed

subsection \<open>addEmbedding\<close>

lemma parse_recordToJson_list:
  "map (zEmbeddingRecord rt) (map recordToJson rs) = map Inr ds \<Longrightarrow> ds = rs"
proof (induction rs arbitrary: ds)
  case Nil
  then show ?case by simp
next
  case (Cons r rs)
  then obtain d ds' where d: "ds = d # ds'" by (cases ds) auto
  with Cons.prems have "zEmbeddingRecord rt (recordToJson r) = Inr d"
    "map (zEmbeddingRecord rt) (map recordToJson rs) = map Inr ds'" by simp_all
  then show ?case using Cons.IH d zEmbeddingRecord_recordToJson_same by blast
qed

lemma addEmbedding_loaded:
  assumes "ensureIndexLoaded rt w = (Inr (), w1)" and "indexCache w1 = Some c"
  shows "addEmbedding rt j w =
           (case zEmbeddingRecord rt j of
              Inl iss \<Rightarrow> (Inl (InvalidRecord iss), w1)
            | Inr v \<Rightarrow>
                saveIndex rt (map recordToJson (upserted v (map cached_record (embeddings c))))
                  w1)"
  using assms
  by (simp add: addEmbedding_def upserted_def split: sum.splits prod.splits)

lemma addEmbedding_success:
  assumes "addEmbedding rt j w = (Inr (), w')"
  shows "\<exists>w1 c v c'. ensureIndexLoaded rt w = (Inr (), w1) \<and> indexCache w1 = Some c \<and>
           zEmbeddingRecord rt j = Inr v \<and> indexCache w' = Some c' \<and>
           map cached_record (embeddings c') = upserted v (map cached_record (embeddings c))"
proof (cases "ensureIndexLoaded rt w")
  case (Pair r w1)
  show ?thesis
  proof (cases r)
    case (Inl e)
    then show ?thesis using Pair assms by (simp add: addEmbedding_def)
  next
    case (Inr u)
    with Pair obtain c where c: "indexCache w1 = Some c"
      using ensureIndexLoaded_Inr by blast
    have l: "ensureIndexLoaded rt w = (Inr (), w1)" using Pair Inr by simp
    from assms obtain v where v: "zEmbeddingRecord rt j = Inr v"
      and s: "saveIndex rt (map recordToJson (upserted v (map cached_record (embeddings c)))) w1 =
                (Inr (), w')"
      unfolding addEmbedding_loaded[OF l c] by (cases "zEmbeddingRecord rt j") auto
    from saveIndex_success[OF s] obtain c' ds where
      c': "indexCache w' = Some c'" and
      p: "map (zEmbeddingRecord rt)
            (map recordToJson (upserted v (map cached_record (embeddings c)))) = map Inr ds" and
      e: "embeddings c' = map (cached rt) ds"
      by blast
    have "ds = upserted v (map cached_record (embeddings c))"
      using p by (rule parse_recordToJson_list)
    then have "map cached_record (embeddings c') = upserted v (map cached_record (embeddings c))"
      using e by (simp add: map_cached_record_cached_comp)
    then show ?thesis using l c v c' by blast
  qed
qed

lemma replace_loop_no_match:
  "\<forall>r \<in> set rs. \<not> matches v r \<Longrightarrow> replace_loop v rs = (rs, False)"
  by (induction rs) (auto simp: matches_def)

lemma replace_loop_first_match:
  "i < length rs \<Longrightarrow> matches v (rs ! i) \<Longrightarrow> \<forall>k<i. \<not> matches v (rs ! k) \<Longrightarrow>
   replace_loop v rs = (rs[i := v], True)"
proof (induction rs arbitrary: i)
  case Nil
  then show ?case by simp
next
  case (Cons r rs)
  show ?case
  proof (cases i)
    case 0
    then show ?thesis using Cons.prems by (simp add: matches_def)
  next
    case (Suc n)
    have "\<not> matches v r" using Cons.prems(3) Suc by auto
    then have nm: "\<not> (id' r = id' v \<or> (sourceType r = sourceType v \<and> sourceId r = sourceId v))"
      by (simp add: matches_def)
    have "replace_loop v rs = (rs[n := v], True)"
      using Cons.prems Suc by (intro Cons.IH) auto
    then show ?thesis using Suc nm by auto
  qed
qed

lemma upserted_no_match:
  "\<forall>r \<in> set rs. \<not> matches v r \<Longrightarrow> upserted v rs = rs @ [v]"
  by (simp add: upserted_def replace_loop_no_match)

lemma upserted_first_match:
  "i < length rs \<Longrightarrow> matches v (rs ! i) \<Longrightarrow> \<forall>k<i. \<not> matches v (rs ! k) \<Longrightarrow>
   upserted v rs = rs[i := v]"
  by (simp add: upserted_def replace_loop_first_match)

lemma upserted_Cons:
  "upserted v (r # rs) = (if matches v r then v # rs else r # upserted v rs)"
  by (simp add: upserted_def matches_def split: prod.splits)

lemma upserted_Nil: "upserted v [] = [v]"
  by (simp add: upserted_def)

lemma set_upserted: "set (upserted v rs) \<subseteq> insert v (set rs)"
  by (induction rs) (auto simp: upserted_Cons upserted_Nil)

lemma upserted_contains: "v \<in> set (upserted v rs)"
  by (induction rs) (auto simp: upserted_Cons upserted_Nil)

lemma upserted_distinct:
  assumes "distinct (map id' rs)" and "distinct (map source rs)"
    and "\<forall>a \<in> set rs. \<forall>b \<in> set rs. matches v a \<and> matches v b \<longrightarrow> a = b"
  shows "distinct (map id' (upserted v rs)) \<and> distinct (map source (upserted v rs))"
  using assms
proof (induction rs)
  case Nil
  then show ?case by (simp add: upserted_Nil)
next
  case (Cons r rs)
  show ?case
  proof (cases "matches v r")
    case True
    have "\<not> matches v b" if "b \<in> set rs" for b
    proof
      assume "matches v b"
      then have "b = r" using Cons.prems(3) True that by auto
      then show False using Cons.prems(1) that by auto
    qed
    then have nm: "\<forall>b \<in> set rs. \<not> matches v b" by blast
    have "id' v \<notin> id' ` set rs"
    proof
      assume "id' v \<in> id' ` set rs"
      then obtain b where "b \<in> set rs" "id' b = id' v" by auto
      then show False using nm by (auto simp: matches_def)
    qed
    moreover have "source v \<notin> source ` set rs"
    proof
      assume "source v \<in> source ` set rs"
      then obtain b where "b \<in> set rs" "source b = source v" by auto
      then show False using nm by (auto simp: matches_def source_def)
    qed
    ultimately have "id' v \<notin> id' ` set rs \<and> source v \<notin> source ` set rs" by simp
    then show ?thesis using True Cons.prems(1,2) by (simp add: upserted_Cons)
  next
    case False
    have ih: "distinct (map id' (upserted v rs)) \<and> distinct (map source (upserted v rs))"
      using Cons.prems by (intro Cons.IH) auto
    have "id' r \<noteq> id' v" "source r \<noteq> source v"
      using False by (auto simp: matches_def source_def)
    moreover have "id' r \<notin> id' ` set rs" "source r \<notin> source ` set rs"
      using Cons.prems(1,2) by auto
    ultimately have "id' r \<notin> id' ` set (upserted v rs)" "source r \<notin> source ` set (upserted v rs)"
      using set_upserted[of v rs] by auto
    then show ?thesis using False ih by (simp add: upserted_Cons)
  qed
qed

lemma addEmbedding_succeeds:
  assumes "ensureIndexLoaded rt w = (Inr (), w1)" and "indexCache w1 = Some c"
    and "zEmbeddingRecord rt j = Inr v"
    and "\<forall>r \<in> set (map cached_record (embeddings c)). satisfiesContract rt r"
    and "\<not> driveFails w1 (ioCount w1)"
  shows "\<exists>w'. addEmbedding rt j w = (Inr (), w')"
proof -
  let ?new = "upserted v (map cached_record (embeddings c))"
  have "satisfiesContract rt v" using assms(3) by (rule zEmbeddingRecord_satisfiesContract)
  then have "\<forall>r \<in> set ?new. satisfiesContract rt r"
    using assms(4) set_upserted[of v "map cached_record (embeddings c)"] by blast
  then have p: "map (zEmbeddingRecord rt) (map recordToJson ?new) = map Inr ?new"
    by (rule parse_map_recordToJson)
  have "ensureIndexLoaded rt w1 = (Inr (), w1)"
    using assms(2) by (rule ensureIndexLoaded_loaded)
  from saveIndex_succeeds[OF this p assms(5)]
  show ?thesis unfolding addEmbedding_loaded[OF assms(1,2)] by (simp add: assms(3))
qed

lemma example_cache_records: "map cached_record (embeddings (example_cache rs)) = rs"
  by (simp add: example_cache_def comp_def)

lemma example_world_cache: "indexCache (example_world rs failing) = Some (example_cache rs)"
  by (simp add: example_world_def)

lemma example_world_drive: "\<not> driveFails (example_world rs []) (ioCount (example_world rs []))"
  by (simp add: example_world_def)

lemma addEmbedding_upsert:
  assumes "addEmbedding rt j w = (Inr (), w')"
  shows "\<exists>w1 c c' v.
           ensureIndexLoaded rt w = (Inr (), w1) \<and> indexCache w1 = Some c \<and>
           indexCache w' = Some c' \<and> zEmbeddingRecord rt j = Inr v \<and>
           ((\<forall>r \<in> set (map cached_record (embeddings c)). \<not> matches v r) \<longrightarrow>
              map cached_record (embeddings c') = map cached_record (embeddings c) @ [v]) \<and>
           (\<forall>i < length (embeddings c).
              matches v (cached_record (embeddings c ! i)) \<and>
              (\<forall>k<i. \<not> matches v (cached_record (embeddings c ! k))) \<longrightarrow>
              map cached_record (embeddings c') = (map cached_record (embeddings c))[i := v]) \<and>
           (distinct (map id' (map cached_record (embeddings c))) \<and>
            distinct (map source (map cached_record (embeddings c))) \<and>
            (\<forall>a \<in> set (map cached_record (embeddings c)).
               \<forall>b \<in> set (map cached_record (embeddings c)).
                 matches v a \<and> matches v b \<longrightarrow> a = b) \<longrightarrow>
              distinct (map id' (map cached_record (embeddings c'))) \<and>
              distinct (map source (map cached_record (embeddings c'))))"
proof -
  from addEmbedding_success[OF assms] obtain w1 c v c' where
    l: "ensureIndexLoaded rt w = (Inr (), w1)" "indexCache w1 = Some c"
       "zEmbeddingRecord rt j = Inr v" "indexCache w' = Some c'" and
    u: "map cached_record (embeddings c') = upserted v (map cached_record (embeddings c))"
    by blast
  let ?old = "map cached_record (embeddings c)"
  have a: "(\<forall>r \<in> set ?old. \<not> matches v r) \<longrightarrow> upserted v ?old = ?old @ [v]"
    using upserted_no_match by blast
  have b: "\<forall>i < length (embeddings c).
              matches v (cached_record (embeddings c ! i)) \<and>
              (\<forall>k<i. \<not> matches v (cached_record (embeddings c ! k))) \<longrightarrow>
              upserted v ?old = ?old[i := v]"
  proof (intro allI impI)
    fix i
    assume i: "i < length (embeddings c)"
      and m: "matches v (cached_record (embeddings c ! i)) \<and>
              (\<forall>k<i. \<not> matches v (cached_record (embeddings c ! k)))"
    show "upserted v ?old = ?old[i := v]"
      using i m by (intro upserted_first_match) auto
  qed
  have d: "distinct (map id' ?old) \<and> distinct (map source ?old) \<and>
            (\<forall>a \<in> set ?old. \<forall>b \<in> set ?old. matches v a \<and> matches v b \<longrightarrow> a = b) \<longrightarrow>
              distinct (map id' (upserted v ?old)) \<and> distinct (map source (upserted v ?old))"
    using upserted_distinct[of ?old v] by blast
  show ?thesis
    by (rule exI[of _ w1], rule exI[of _ c], rule exI[of _ c'], rule exI[of _ v])
       (use l a b d in \<open>simp only: u simp_thms\<close>)
qed


text \<open>
  C3 (as amended). When \<open>addEmbedding\<close> returns, the cache holds the previous records
  with the new record put in the place of the first cached record that has the same id or
  the same source type and source id; the new record is appended when no cached record
  matches. When the previous records have pairwise distinct ids and pairwise distinct
  pairs of source type and source id, and the new record does not match two different
  cached records, the records after the call have pairwise distinct ids and pairwise
  distinct pairs too. When \<open>saveIndex\<close> returns, the cache holds the records it was
  given, as parsed, in their order: it does not look for duplicates.
\<close>

theorem addEmbedding_replaces_in_place:
  "(\<forall>w'. addEmbedding rt j w = (Inr (), w') \<longrightarrow>
      (\<exists>w1 c c' v.
                 ensureIndexLoaded rt w = (Inr (), w1) \<and> indexCache w1 = Some c \<and>
                 indexCache w' = Some c' \<and> zEmbeddingRecord rt j = Inr v \<and>
                 ((\<forall>r \<in> set (map cached_record (embeddings c)). \<not> matches v r) \<longrightarrow>
                    map cached_record (embeddings c') = map cached_record (embeddings c) @ [v]) \<and>
                 (\<forall>i < length (embeddings c).
                    matches v (cached_record (embeddings c ! i)) \<and>
                    (\<forall>k<i. \<not> matches v (cached_record (embeddings c ! k))) \<longrightarrow>
                    map cached_record (embeddings c') = (map cached_record (embeddings c))[i := v]) \<and>
                 (distinct (map id' (map cached_record (embeddings c))) \<and>
                  distinct (map source (map cached_record (embeddings c))) \<and>
                  (\<forall>a \<in> set (map cached_record (embeddings c)).
                     \<forall>b \<in> set (map cached_record (embeddings c)).
                       matches v a \<and> matches v b \<longrightarrow> a = b) \<longrightarrow>
                    distinct (map id' (map cached_record (embeddings c'))) \<and>
                    distinct (map source (map cached_record (embeddings c')))))) \<and>
   (\<forall>recs w'. saveIndex rt recs w = (Inr (), w') \<longrightarrow>
      (\<exists>c' ds. indexCache w' = Some c' \<and>
         map (zEmbeddingRecord rt) recs = map Inr ds \<and>
         map cached_record (embeddings c') = ds))"
proof (intro conjI allI impI)
  fix w'
  assume "addEmbedding rt j w = (Inr (), w')"
  then show "\<exists>w1 c c' v.
               ensureIndexLoaded rt w = (Inr (), w1) \<and> indexCache w1 = Some c \<and>
               indexCache w' = Some c' \<and> zEmbeddingRecord rt j = Inr v \<and>
               ((\<forall>r \<in> set (map cached_record (embeddings c)). \<not> matches v r) \<longrightarrow>
                  map cached_record (embeddings c') = map cached_record (embeddings c) @ [v]) \<and>
               (\<forall>i < length (embeddings c).
                  matches v (cached_record (embeddings c ! i)) \<and>
                  (\<forall>k<i. \<not> matches v (cached_record (embeddings c ! k))) \<longrightarrow>
                  map cached_record (embeddings c') = (map cached_record (embeddings c))[i := v]) \<and>
               (distinct (map id' (map cached_record (embeddings c))) \<and>
                distinct (map source (map cached_record (embeddings c))) \<and>
                (\<forall>a \<in> set (map cached_record (embeddings c)).
                   \<forall>b \<in> set (map cached_record (embeddings c)).
                     matches v a \<and> matches v b \<longrightarrow> a = b) \<longrightarrow>
                  distinct (map id' (map cached_record (embeddings c'))) \<and>
                  distinct (map source (map cached_record (embeddings c'))))"
    by (rule addEmbedding_upsert)
next
  fix recs w'
  assume "saveIndex rt recs w = (Inr (), w')"
  from saveIndex_success[OF this] obtain c' :: IndexCache and ds where
    "indexCache w' = Some c'" "map (zEmbeddingRecord rt) recs = map Inr ds"
    "embeddings c' = map (cached rt) ds"
    by (elim exE conjE) (rule that)
  then show "\<exists>c' ds. indexCache w' = Some c' \<and>
         map (zEmbeddingRecord rt) recs = map Inr ds \<and>
         map cached_record (embeddings c') = ds"
    by (intro exI[of _ c'] exI[of _ ds]) (simp add: map_cached_record_cached_comp)
qed

theorem addEmbedding_replaces_in_place_witness:
  "\<exists>w' c'. addEmbedding exampleRuntime (recordToJson (exampleRecord ''a'' ''n9'' [1, 1]))
             (example_world [exampleRecord ''a'' ''n1'' [1, 0], exampleRecord ''b'' ''n2'' [0, 1]] []) =
             (Inr (), w') \<and>
           indexCache w' = Some c' \<and>
           map cached_record (embeddings c') =
             [exampleRecord ''a'' ''n9'' [1, 1], exampleRecord ''b'' ''n2'' [0, 1]]"
proof -
  let ?a = "exampleRecord ''a'' ''n1'' [1, 0]"
  let ?b = "exampleRecord ''b'' ''n2'' [0, 1]"
  let ?v = "exampleRecord ''a'' ''n9'' [1, 1]"
  let ?w = "example_world [?a, ?b] []"
  have p: "zEmbeddingRecord exampleRuntime (recordToJson ?v) = Inr ?v"
    by (intro zEmbeddingRecord_recordToJson exampleRecord_contract) simp_all
  have "\<forall>r \<in> set (map cached_record (embeddings (example_cache [?a, ?b]))).
          satisfiesContract exampleRuntime r"
    unfolding example_cache_records by (simp add: exampleRecord_contract)
  from addEmbedding_succeeds[OF example_world_loaded example_world_cache p this example_world_drive]
  obtain w' where s: "addEmbedding exampleRuntime (recordToJson ?v) ?w = (Inr (), w')" by blast
  from addEmbedding_replaces_in_place[THEN conjunct1, rule_format, OF s] obtain w1 c c' v where
    l: "ensureIndexLoaded exampleRuntime ?w = (Inr (), w1)" "indexCache w1 = Some c"
       "indexCache w' = Some c'" "zEmbeddingRecord exampleRuntime (recordToJson ?v) = Inr v"
    and r: "\<forall>i < length (embeddings c).
              matches v (cached_record (embeddings c ! i)) \<and>
              (\<forall>k<i. \<not> matches v (cached_record (embeddings c ! k))) \<longrightarrow>
              map cached_record (embeddings c') = (map cached_record (embeddings c))[i := v]"
    by blast
  have w1: "w1 = ?w" using l(1) by (simp add: example_world_loaded)
  have c: "c = example_cache [?a, ?b]" using l(2) unfolding w1 by (simp add: example_world_cache)
  have v: "v = ?v" using l(4) p by simp
  have "map cached_record (embeddings c') = (map cached_record (embeddings c))[0 := v]"
    using r[rule_format, of 0] unfolding c v
    by (simp add: example_cache_def matches_def exampleRecord_def)
  then have "map cached_record (embeddings c') = [?v, ?b]"
    unfolding c v example_cache_records by simp
  with s l(3) show ?thesis by (intro exI[of _ w'] exI[of _ c'] conjI)
qed

text \<open>
  From a loaded empty index, \<open>saveIndex\<close> with the same record twice returns and leaves
  both copies in the cache.
\<close>

theorem saveIndex_keeps_duplicates_counterexample:
  "\<exists>w' c'. saveIndex exampleRuntime
             [recordToJson (exampleRecord ''a'' ''n1'' [1, 0]),
              recordToJson (exampleRecord ''a'' ''n1'' [1, 0])]
             (example_world [] []) = (Inr (), w') \<and>
           indexCache w' = Some c' \<and>
           map cached_record (embeddings c') =
             [exampleRecord ''a'' ''n1'' [1, 0], exampleRecord ''a'' ''n1'' [1, 0]]"
proof -
  let ?a = "exampleRecord ''a'' ''n1'' [1, 0]"
  let ?w = "example_world [] []"
  have p: "map (zEmbeddingRecord exampleRuntime) (map recordToJson [?a, ?a]) = map Inr [?a, ?a]"
    by (intro parse_map_recordToJson) (simp add: exampleRecord_contract)
  from saveIndex_succeeds[OF example_world_loaded p example_world_drive]
  obtain w' where s: "saveIndex exampleRuntime (map recordToJson [?a, ?a]) ?w = (Inr (), w')"
    by blast
  from saveIndex_success[OF s] obtain c' ds where
    c: "indexCache w' = Some c'" and
    d: "map (zEmbeddingRecord exampleRuntime) (map recordToJson [?a, ?a]) = map Inr ds" and
    e: "embeddings c' = map (cached exampleRuntime) ds"
    by blast
  have "ds = [?a, ?a]" using d by (rule parse_recordToJson_list)
  then have "map cached_record (embeddings c') = [?a, ?a]"
    using e by (simp add: cached_def)
  with s c show ?thesis by auto
qed

text \<open>
  A new record that has the id of one cached record and the source of another replaces
  the first of the two; the other stays, with the same id as the new record.
\<close>

lemma addEmbedding_two_matches_example:
  "\<exists>w' c'. addEmbedding exampleRuntime (recordToJson (exampleRecord ''b'' ''n1'' [1, 1]))
             (example_world [exampleRecord ''a'' ''n1'' [1, 0], exampleRecord ''b'' ''n2'' [0, 1]] []) =
             (Inr (), w') \<and>
           indexCache w' = Some c' \<and>
           map cached_record (embeddings c') =
             [exampleRecord ''b'' ''n1'' [1, 1], exampleRecord ''b'' ''n2'' [0, 1]]"
proof -
  let ?a = "exampleRecord ''a'' ''n1'' [1, 0]"
  let ?b = "exampleRecord ''b'' ''n2'' [0, 1]"
  let ?v = "exampleRecord ''b'' ''n1'' [1, 1]"
  let ?w = "example_world [?a, ?b] []"
  have p: "zEmbeddingRecord exampleRuntime (recordToJson ?v) = Inr ?v"
    by (intro zEmbeddingRecord_recordToJson exampleRecord_contract) simp_all
  have "\<forall>r \<in> set (map cached_record (embeddings (example_cache [?a, ?b]))).
          satisfiesContract exampleRuntime r"
    unfolding example_cache_records by (simp add: exampleRecord_contract)
  from addEmbedding_succeeds[OF example_world_loaded example_world_cache p this example_world_drive]
  obtain w' where s: "addEmbedding exampleRuntime (recordToJson ?v) ?w = (Inr (), w')" by blast
  from addEmbedding_success[OF s] obtain w1 c v c' where
    l: "ensureIndexLoaded exampleRuntime ?w = (Inr (), w1)" "indexCache w1 = Some c"
       "indexCache w' = Some c'" "zEmbeddingRecord exampleRuntime (recordToJson ?v) = Inr v"
    and u: "map cached_record (embeddings c') = upserted v (map cached_record (embeddings c))"
    by blast
  have w1: "w1 = ?w" using l(1) by (simp add: example_world_loaded)
  have c: "c = example_cache [?a, ?b]" using l(2) unfolding w1 by (simp add: example_world_cache)
  have v: "v = ?v" using l(4) p by simp
  have "map cached_record (embeddings c') = [?v, ?b]"
    unfolding u c v example_cache_records
    by (simp add: upserted_Cons matches_def exampleRecord_def)
  with s l(3) show ?thesis by (intro exI[of _ w'] exI[of _ c'] conjI)
qed

subsection \<open>The default schema version\<close>




section \<open>Properties of the embeddings wrapper\<close>

subsection \<open>The retry policy\<close>

lemma callProvider_fields:
  "embeddings_create (snd (callProvider inputs w)) = embeddings_create w"
  "requestLog (snd (callProvider inputs w)) = requestLog w @ [inputs]"
  "sleepLog (snd (callProvider inputs w)) = sleepLog w"
  by (simp_all add: callProvider_def)

lemma sleep_fields:
  "embeddings_create (sleep ms w) = embeddings_create w"
  "requestLog (sleep ms w) = requestLog w"
  "sleepLog (sleep ms w) = sleepLog w @ [ms]"
  by (simp_all add: sleep_def)

lemma embeddingsRequest_thrown:
  assumes "embeddings_create w (length (requestLog w)) inputs = Inl e"
  shows "embeddingsRequest inputs w = (Inl e, w\<lparr>requestLog := requestLog w @ [inputs]\<rparr>)"
  using assms by (simp add: embeddingsRequest_def callProvider_def)

lemma collect_vectors_Some: "collect_vectors (map Some vs) idx = Inr vs"
  by (induction vs arbitrary: idx) simp_all

lemma collect_vectors_None: "None \<in> set items \<Longrightarrow> \<exists>i. collect_vectors items idx = Inl i"
proof (induction items arbitrary: idx)
  case Nil
  then show ?case by simp
next
  case (Cons a items)
  then show ?case
    by (cases a) (auto split: sum.splits, (metis sum.exhaust sum.simps(4))?)
qed

lemma embeddingsRequest_ok:
  assumes "embeddings_create w (length (requestLog w)) inputs = Inr (Some (map Some vs))"
    and "length vs = length inputs"
  shows "embeddingsRequest inputs w = (Inr vs, w\<lparr>requestLog := requestLog w @ [inputs]\<rparr>)"
  using assms by (simp add: embeddingsRequest_def callProvider_def collect_vectors_Some)

lemma embeddingsRequest_malformed:
  assumes "embeddings_create w (length (requestLog w)) inputs = Inr resp"
    and "resp = None \<or> (\<exists>items. resp = Some items \<and>
                          (length items \<noteq> length inputs \<or> None \<in> set items))"
  shows "\<exists>msg. embeddingsRequest inputs w =
           (Inl (plainError msg), w\<lparr>requestLog := requestLog w @ [inputs]\<rparr>)"
proof (cases resp)
  case None
  then show ?thesis using assms(1)
    by (auto simp add: embeddingsRequest_def callProvider_def)
next
  case (Some items)
  show ?thesis
  proof (cases "length items \<noteq> length inputs")
    case True
    then show ?thesis using assms(1) Some
      by (auto simp add: embeddingsRequest_def callProvider_def)
  next
    case False
    then have "None \<in> set items" using assms(2) Some by simp
    then obtain i where "collect_vectors items 0 = Inl i"
      using collect_vectors_None by blast
    then show ?thesis using assms(1) Some False
      by (auto simp add: embeddingsRequest_def callProvider_def)
  qed
qed

lemma plainError_not_retryable: "\<not> isRetryable (plainError msg)"
  by (simp add: isRetryable_def plainError_def)

lemma withRetries_loop_success:
  "fn w = (Inr r, w1) \<Longrightarrow> withRetries_loop fn opn attempt w = (Inr r, w1)"
  by (subst withRetries_loop.simps) simp

lemma withRetries_loop_fatal:
  "fn w = (Inl e, w1) \<Longrightarrow> \<not> isRetryable e \<Longrightarrow>
   withRetries_loop fn opn attempt w =
     (Inl (RetryFailure opn (attempt + 1) False (err_message e)), w1)"
  by (subst withRetries_loop.simps) simp

lemma withRetries_loop_retry:
  "fn w = (Inl e, w1) \<Longrightarrow> isRetryable e \<Longrightarrow> attempt < MAX_RETRIES \<Longrightarrow>
   withRetries_loop fn opn attempt w =
     withRetries_loop fn opn (attempt + 1) (sleep (RETRY_BASE_DELAY_MS * 2 ^ attempt) w1)"
  by (subst withRetries_loop.simps) simp

lemma withRetries_loop_exhausted:
  "fn w = (Inl e, w1) \<Longrightarrow> isRetryable e \<Longrightarrow> attempt = MAX_RETRIES \<Longrightarrow>
   withRetries_loop fn opn attempt w =
     (Inl (RetryFailure opn (MAX_RETRIES + 1) True (err_message e)), w1)"
  by (subst withRetries_loop.simps) simp


lemma withRetries_loop_all_transient:
  assumes "\<forall>i. attempt + i \<le> MAX_RETRIES \<longrightarrow>
             (\<exists>e. embeddings_create w (length (requestLog w) + i) inputs = Inl e \<and> isRetryable e)"
    and "attempt \<le> MAX_RETRIES"
  shows "\<exists>e. isRetryable e \<and>
           withRetries_loop (embeddingsRequest inputs) opn attempt w =
             (Inl (RetryFailure opn (MAX_RETRIES + 1) True (err_message e)),
              w\<lparr>requestLog := requestLog w @ replicate (MAX_RETRIES + 1 - attempt) inputs,
                sleepLog := sleepLog w @
                  map (\<lambda>k. RETRY_BASE_DELAY_MS * 2 ^ k) [attempt..<MAX_RETRIES]\<rparr>)"
  using assms
proof (induction "MAX_RETRIES - attempt" arbitrary: attempt w)
  case 0
  then have a: "attempt = MAX_RETRIES" by simp
  from "0.prems"(1)[rule_format, of 0] a obtain e where
    e: "embeddings_create w (length (requestLog w)) inputs = Inl e" "isRetryable e" by auto
  show ?case
    using withRetries_loop_exhausted[where fn = "embeddingsRequest inputs" and w = w
        and opn = opn, OF embeddingsRequest_thrown[OF e(1)] e(2) a] e(2) a
    by (intro exI[of _ e]) simp
next
  case (Suc n)
  then have a: "attempt < MAX_RETRIES" by simp
  from Suc.prems(1)[rule_format, of 0] a obtain e where
    e: "embeddings_create w (length (requestLog w)) inputs = Inl e" "isRetryable e" by auto
  let ?w2 = "sleep (RETRY_BASE_DELAY_MS * 2 ^ attempt) (w\<lparr>requestLog := requestLog w @ [inputs]\<rparr>)"
  have step: "withRetries_loop (embeddingsRequest inputs) opn attempt w =
              withRetries_loop (embeddingsRequest inputs) opn (attempt + 1) ?w2"
    by (rule withRetries_loop_retry[where fn = "embeddingsRequest inputs" and w = w,
          OF embeddingsRequest_thrown[OF e(1)] e(2) a])
  have h: "\<forall>i. attempt + 1 + i \<le> MAX_RETRIES \<longrightarrow>
             (\<exists>e. embeddings_create ?w2 (length (requestLog ?w2) + i) inputs = Inl e \<and> isRetryable e)"
  proof (intro allI impI)
    fix i assume "attempt + 1 + i \<le> MAX_RETRIES"
    then show "\<exists>e. embeddings_create ?w2 (length (requestLog ?w2) + i) inputs = Inl e \<and> isRetryable e"
      using Suc.prems(1)[rule_format, of "Suc i"] by (simp add: sleep_def)
  qed
  have n: "n = MAX_RETRIES - (attempt + 1)" using Suc.hyps(2) by simp
  from Suc.hyps(1)[OF n h] a obtain e' where
    e': "isRetryable e'"
      "withRetries_loop (embeddingsRequest inputs) opn (attempt + 1) ?w2 =
         (Inl (RetryFailure opn (MAX_RETRIES + 1) True (err_message e')),
          ?w2\<lparr>requestLog := requestLog ?w2 @ replicate (MAX_RETRIES + 1 - (attempt + 1)) inputs,
               sleepLog := sleepLog ?w2 @
                 map (\<lambda>k. RETRY_BASE_DELAY_MS * 2 ^ k) [attempt + 1..<MAX_RETRIES]\<rparr>)"
    by auto
  have r: "replicate (MAX_RETRIES + 1 - attempt) inputs =
             inputs # replicate (MAX_RETRIES + 1 - (attempt + 1)) inputs"
    using a by (simp add: Suc_diff_le replicate_Suc[symmetric] del: replicate_Suc)
  have u: "[attempt..<MAX_RETRIES] = attempt # [attempt + 1..<MAX_RETRIES]"
    using a by (simp add: upt_conv_Cons)
  show ?case
    unfolding step e'(2) r u using e'(1)
    by (intro exI[of _ e']) (simp add: sleep_def)
qed


lemma retry_delays:
  "map (\<lambda>k. RETRY_BASE_DELAY_MS * 2 ^ k) [0..<MAX_RETRIES] = [200, 400, 800]"
  "map (\<lambda>attempt. RETRY_BASE_DELAY_MS * 2 ^ (attempt - 1)) [1..<MAX_RETRIES + 1] = [200, 400, 800]"
  by (simp_all add: RETRY_BASE_DELAY_MS_def MAX_RETRIES_def upt_rec)

lemma isRetryable_transient: "isRetryable e = transient e"
  by (auto simp: isRetryable_def transient_def reportedStatus_def Let_def
      split: option.splits status.splits)

text \<open>
  C5 (as amended). Let \<open>callOpenAIEmbeddings\<close> be called with inputs that are not
  empty. Call an error transient when its status (its \<open>status\<close> property, or its
  \<open>code\<close> property when it has no status) is the number 429 or a number from 500 to
  599, or when the code of its cause is \<open>ETIMEDOUT\<close>. When the provider throws a
  transient error at each of the next \<open>MAX_RETRIES + 1\<close> calls, the wrapper calls it
  exactly \<open>MAX_RETRIES + 1 = 4\<close> times, sleeps
  \<open>RETRY_BASE_DELAY_MS * 2 ^ (attempt - 1)\<close> before the retries
  \<open>attempt = 1, 2, 3\<close> (200, 400 and 800 ms), and throws an error that reports
  \<open>MAX_RETRIES + 1\<close> attempts. When the first call throws an error that is not
  transient (as an error is that has a status from 400 to 499 other than 429 and no
  cause with the code \<open>ETIMEDOUT\<close>), or returns a malformed response (no data, a
  wrong number of items, an item with no embedding), the wrapper has called the provider
  once, has not slept, and throws an error that reports one attempt.
\<close>

theorem retry_policy:
  assumes "inputs \<noteq> []"
  shows "((\<forall>i \<le> MAX_RETRIES.
             \<exists>e. embeddings_create w (length (requestLog w) + i) inputs = Inl e \<and> transient e) \<longrightarrow>
           (\<exists>msg w'. callOpenAIEmbeddings inputs w =
                        (Inl (RetryFailure ''embedBatch'' (MAX_RETRIES + 1) True msg), w') \<and>
              MAX_RETRIES + 1 = 4 \<and>
              requestLog w' = requestLog w @ replicate (MAX_RETRIES + 1) inputs \<and>
              sleepLog w' = sleepLog w @
                map (\<lambda>attempt. RETRY_BASE_DELAY_MS * 2 ^ (attempt - 1)) [1..<MAX_RETRIES + 1] \<and>
              sleepLog w' = sleepLog w @ [200, 400, 800])) \<and>
         (\<forall>e. embeddings_create w (length (requestLog w)) inputs = Inl e \<and> \<not> transient e \<longrightarrow>
            callOpenAIEmbeddings inputs w =
              (Inl (RetryFailure ''embedBatch'' 1 False (err_message e)),
               w\<lparr>requestLog := requestLog w @ [inputs]\<rparr>)) \<and>
         (\<forall>e n. embeddings_create w (length (requestLog w)) inputs = Inl e \<and>
            err_status e = Some (StatusNumber n) \<and> 400 \<le> n \<and> n < 500 \<and> n \<noteq> 429 \<and>
            cause_code e \<noteq> Some ''ETIMEDOUT'' \<longrightarrow>
            callOpenAIEmbeddings inputs w =
              (Inl (RetryFailure ''embedBatch'' 1 False (err_message e)),
               w\<lparr>requestLog := requestLog w @ [inputs]\<rparr>)) \<and>
         (\<forall>resp. embeddings_create w (length (requestLog w)) inputs = Inr resp \<and>
            (resp = None \<or>
             (\<exists>items. resp = Some items \<and>
                (length items \<noteq> length inputs \<or> None \<in> set items))) \<longrightarrow>
            (\<exists>msg. callOpenAIEmbeddings inputs w =
               (Inl (RetryFailure ''embedBatch'' 1 False msg),
                w\<lparr>requestLog := requestLog w @ [inputs]\<rparr>)))"
proof -
  have fatal: "callOpenAIEmbeddings inputs w =
              (Inl (RetryFailure ''embedBatch'' 1 False (err_message e)),
               w\<lparr>requestLog := requestLog w @ [inputs]\<rparr>)"
    if a: "embeddings_create w (length (requestLog w)) inputs = Inl e" "\<not> transient e"
    for e
  proof -
    have "embeddingsRequest inputs w = (Inl e, w\<lparr>requestLog := requestLog w @ [inputs]\<rparr>)"
      using a(1) by (simp add: embeddingsRequest_thrown)
    from withRetries_loop_fatal[where fn = "embeddingsRequest inputs" and w = w, OF this, of _ 0] a(2)
    show ?thesis
      using assms by (simp add: callOpenAIEmbeddings_def withRetries_def isRetryable_transient)
  qed
  show ?thesis
  proof (intro conjI allI impI)
    assume h: "\<forall>i \<le> MAX_RETRIES.
               \<exists>e. embeddings_create w (length (requestLog w) + i) inputs = Inl e \<and> transient e"
    then have "\<forall>i. 0 + i \<le> MAX_RETRIES \<longrightarrow>
               (\<exists>e. embeddings_create w (length (requestLog w) + i) inputs = Inl e \<and> isRetryable e)"
      by (simp add: isRetryable_transient)
    from withRetries_loop_all_transient[where opn = "''embedBatch''", OF this le0]
    obtain e :: thrown where e:
      "withRetries_loop (embeddingsRequest inputs) ''embedBatch'' 0 w =
         (Inl (RetryFailure ''embedBatch'' (MAX_RETRIES + 1) True (err_message e)),
          w\<lparr>requestLog := requestLog w @ replicate (MAX_RETRIES + 1 - 0) inputs,
            sleepLog := sleepLog w @ map (\<lambda>k. RETRY_BASE_DELAY_MS * 2 ^ k) [0..<MAX_RETRIES]\<rparr>)"
      by (elim exE conjE) (rule that)
    let ?w' = "w\<lparr>requestLog := requestLog w @ replicate (MAX_RETRIES + 1) inputs,
            sleepLog := sleepLog w @ [200, 400, 800]\<rparr>"
    have c: "callOpenAIEmbeddings inputs w =
               (Inl (RetryFailure ''embedBatch'' (MAX_RETRIES + 1) True (err_message e)), ?w')"
      using assms e by (simp add: callOpenAIEmbeddings_def withRetries_def retry_delays(1))
    show "\<exists>msg w'. callOpenAIEmbeddings inputs w =
                          (Inl (RetryFailure ''embedBatch'' (MAX_RETRIES + 1) True msg), w') \<and>
                MAX_RETRIES + 1 = 4 \<and>
                requestLog w' = requestLog w @ replicate (MAX_RETRIES + 1) inputs \<and>
                sleepLog w' = sleepLog w @
                  map (\<lambda>attempt. RETRY_BASE_DELAY_MS * 2 ^ (attempt - 1)) [1..<MAX_RETRIES + 1] \<and>
                sleepLog w' = sleepLog w @ [200, 400, 800]"
    proof (intro exI[of _ "err_message e"] exI[of _ ?w'] conjI)
      show "callOpenAIEmbeddings inputs w =
              (Inl (RetryFailure ''embedBatch'' (MAX_RETRIES + 1) True (err_message e)), ?w')"
        by (rule c)
      show "MAX_RETRIES + 1 = 4" by (simp add: MAX_RETRIES_def)
      show "requestLog ?w' = requestLog w @ replicate (MAX_RETRIES + 1) inputs" by simp
      show "sleepLog ?w' = sleepLog w @
              map (\<lambda>attempt. RETRY_BASE_DELAY_MS * 2 ^ (attempt - 1)) [1..<MAX_RETRIES + 1]"
        unfolding retry_delays(2) by simp
      show "sleepLog ?w' = sleepLog w @ [200, 400, 800]" by simp
    qed
  next
    fix e
    assume "embeddings_create w (length (requestLog w)) inputs = Inl e \<and> \<not> transient e"
    then show "callOpenAIEmbeddings inputs w =
                (Inl (RetryFailure ''embedBatch'' 1 False (err_message e)),
                 w\<lparr>requestLog := requestLog w @ [inputs]\<rparr>)"
      using fatal by blast
  next
    fix e :: thrown and n
    assume a: "embeddings_create w (length (requestLog w)) inputs = Inl e \<and>
            err_status e = Some (StatusNumber n) \<and> 400 \<le> n \<and> n < 500 \<and> n \<noteq> 429 \<and>
            cause_code e \<noteq> Some ''ETIMEDOUT''"
    then have "\<not> transient e" by (simp add: transient_def reportedStatus_def)
    with a show "callOpenAIEmbeddings inputs w =
                (Inl (RetryFailure ''embedBatch'' 1 False (err_message e)),
                 w\<lparr>requestLog := requestLog w @ [inputs]\<rparr>)"
      using fatal by blast
  next
    fix resp
    assume a: "embeddings_create w (length (requestLog w)) inputs = Inr resp \<and>
              (resp = None \<or>
               (\<exists>items. resp = Some items \<and>
                  (length items \<noteq> length inputs \<or> None \<in> set items)))"
    then obtain msg where m: "embeddingsRequest inputs w =
             (Inl (plainError msg), w\<lparr>requestLog := requestLog w @ [inputs]\<rparr>)"
      using embeddingsRequest_malformed[of w inputs resp] by blast
    from withRetries_loop_fatal[where fn = "embeddingsRequest inputs" and w = w, OF m
        plainError_not_retryable, of _ 0]
    show "\<exists>msg. callOpenAIEmbeddings inputs w =
                 (Inl (RetryFailure ''embedBatch'' 1 False msg),
                  w\<lparr>requestLog := requestLog w @ [inputs]\<rparr>)"
      using assms by (simp add: callOpenAIEmbeddings_def withRetries_def)
  qed
qed

text \<open>
  A provider that always answers 429 is called four times, with sleeps of 200, 400 and
  800 ms; a provider that answers 404 is called once.
\<close>

theorem retry_policy_witness:
  "(\<exists>msg w'. callOpenAIEmbeddings [''x''] (provider_world0 (\<lambda>n inputs. Inl (httpError 429))) =
               (Inl (RetryFailure ''embedBatch'' 4 True msg), w') \<and>
             requestLog w' = [[''x''], [''x''], [''x''], [''x'']] \<and>
             sleepLog w' = [200, 400, 800]) \<and>
   callOpenAIEmbeddings [''x''] (provider_world0 (\<lambda>n inputs. Inl (httpError 404))) =
     (Inl (RetryFailure ''embedBatch'' 1 False ''http error''),
      \<lparr>embeddings_create = (\<lambda>n inputs. Inl (httpError 404)), requestLog = [[''x'']],
       sleepLog = []\<rparr>)"
proof -
  let ?w = "provider_world0 (\<lambda>n inputs. Inl (httpError 429))"
  let ?v = "provider_world0 (\<lambda>n inputs. Inl (httpError 404))"
  have r: "transient (httpError 429)"
    by (simp add: transient_def reportedStatus_def httpError_def)
  have h: "\<forall>i \<le> MAX_RETRIES.
             \<exists>e. embeddings_create ?w (length (requestLog ?w) + i) [''x''] = Inl e \<and> transient e"
    using r by (simp add: provider_world0_def)
  have n: "[''x''] \<noteq> []" by simp
  from retry_policy[OF n, of ?w, THEN conjunct1, THEN mp, OF h]
  obtain msg w' where
    "callOpenAIEmbeddings [''x''] ?w = (Inl (RetryFailure ''embedBatch'' (MAX_RETRIES + 1) True msg), w')"
    "requestLog w' = requestLog ?w @ replicate (MAX_RETRIES + 1) [''x'']"
    "sleepLog w' = sleepLog ?w @ [200, 400, 800]"
    by (elim exE conjE) (rule that)
  then have 1: "\<exists>msg w'. callOpenAIEmbeddings [''x''] ?w =
               (Inl (RetryFailure ''embedBatch'' 4 True msg), w') \<and>
             requestLog w' = [[''x''], [''x''], [''x''], [''x'']] \<and>
             sleepLog w' = [200, 400, 800]"
    by (intro exI[of _ msg] exI[of _ w'])
       (simp add: MAX_RETRIES_def provider_world0_def numeral_eq_Suc)
  have "embeddings_create ?v (length (requestLog ?v)) [''x''] = Inl (httpError 404) \<and>
        \<not> transient (httpError 404)"
    by (simp add: provider_world0_def transient_def reportedStatus_def httpError_def)
  from retry_policy[OF n, of ?v, THEN conjunct2, THEN conjunct1, rule_format, OF this]
  have 2: "callOpenAIEmbeddings [''x''] ?v =
     (Inl (RetryFailure ''embedBatch'' 1 False ''http error''),
      \<lparr>embeddings_create = (\<lambda>n inputs. Inl (httpError 404)), requestLog = [[''x'']],
       sleepLog = []\<rparr>)"
    by (simp add: provider_world0_def httpError_def)
  from 1 2 show ?thesis by (rule conjI)
qed

text \<open>
  Three connect or timeout failures that are not retried. A timeout reported by the
  \<open>code\<close> of the error itself and not by a cause (as a Node system error reports
  it): the code is a string, so it is neither 429 nor a number from 500 to 599. A refused
  connection reported by the cause: its code is not \<open>ETIMEDOUT\<close>. And a timeout
  error with a message only, no status, no code and no cause. In each case the provider
  is called once, nothing is slept, and the error reports one attempt and is flagged as
  not retryable.
\<close>

theorem retry_connect_failure_counterexample:
  "callOpenAIEmbeddings [''x'']
     (provider_world0 (\<lambda>n inputs.
        Inl \<lparr>err_status = None, err_code = Some (StatusString ''ETIMEDOUT''),
             err_message = ''connect ETIMEDOUT'', cause_code = None\<rparr>)) =
     (Inl (RetryFailure ''embedBatch'' 1 False ''connect ETIMEDOUT''),
      \<lparr>embeddings_create = (\<lambda>n inputs.
          Inl \<lparr>err_status = None, err_code = Some (StatusString ''ETIMEDOUT''),
               err_message = ''connect ETIMEDOUT'', cause_code = None\<rparr>),
       requestLog = [[''x'']], sleepLog = []\<rparr>) \<and>
   callOpenAIEmbeddings [''x'']
     (provider_world0 (\<lambda>n inputs.
        Inl \<lparr>err_status = None, err_code = None,
             err_message = ''Connection error.'', cause_code = Some ''ECONNREFUSED''\<rparr>)) =
     (Inl (RetryFailure ''embedBatch'' 1 False ''Connection error.''),
      \<lparr>embeddings_create = (\<lambda>n inputs.
          Inl \<lparr>err_status = None, err_code = None,
               err_message = ''Connection error.'', cause_code = Some ''ECONNREFUSED''\<rparr>),
       requestLog = [[''x'']], sleepLog = []\<rparr>) \<and>
   callOpenAIEmbeddings [''x'']
     (provider_world0 (\<lambda>n inputs. Inl (plainError ''Request timed out.''))) =
     (Inl (RetryFailure ''embedBatch'' 1 False ''Request timed out.''),
      \<lparr>embeddings_create = (\<lambda>n inputs. Inl (plainError ''Request timed out.'')),
       requestLog = [[''x'']], sleepLog = []\<rparr>)"
  by (simp add: callOpenAIEmbeddings_def withRetries_def withRetries_loop.simps
      embeddingsRequest_def callProvider_def provider_world0_def isRetryable_def
      plainError_def)

subsection \<open>Batches\<close>

lemma chunks_Nil: "chunks n [] = []"
  by (simp add: chunks.simps)

lemma chunks_Cons:
  "0 < n \<Longrightarrow> xs \<noteq> [] \<Longrightarrow> chunks n xs = take n xs # chunks n (drop n xs)"
  by (subst chunks.simps) simp

lemma concat_chunks: "0 < n \<Longrightarrow> concat (chunks n xs) = xs"
proof (induction n xs rule: chunks.induct)
  case (1 n xs)
  show ?case
  proof (cases "xs = []")
    case True
    then show ?thesis by (simp add: chunks_Nil)
  next
    case False
    then show ?thesis using 1 by (simp add: chunks_Cons)
  qed
qed

lemma chunks_sizes: "0 < n \<Longrightarrow> c \<in> set (chunks n xs) \<Longrightarrow> 1 \<le> length c \<and> length c \<le> n"
proof (induction n xs rule: chunks.induct)
  case (1 n xs)
  show ?case
  proof (cases "xs = []")
    case True
    then show ?thesis using 1 by (simp add: chunks_Nil)
  next
    case False
    then have "c = take n xs \<or> c \<in> set (chunks n (drop n xs))"
      using 1(2,3) by (simp add: chunks_Cons)
    then show ?thesis
    proof
      assume "c = take n xs"
      then show ?thesis using False 1(2) by (cases xs) (auto simp: Suc_le_eq)
    next
      assume "c \<in> set (chunks n (drop n xs))"
      then show ?thesis using 1 False by simp
    qed
  qed
qed

lemma chunks_single: "0 < n \<Longrightarrow> xs \<noteq> [] \<Longrightarrow> length xs \<le> n \<Longrightarrow> chunks n xs = [xs]"
  by (simp add: chunks_Cons chunks_Nil)

lemma provider_ok_response:
  assumes "provider_ok w"
  shows "embeddings_create w n inputs = Inr (Some (map Some (response_vectors (embeddings_create w n inputs))))"
    and "length (response_vectors (embeddings_create w n inputs)) = length inputs"
proof -
  from assms obtain vs where vs: "embeddings_create w n inputs = Inr (Some (map Some vs))"
    "length vs = length inputs" unfolding provider_ok_def by blast
  then have "response_vectors (embeddings_create w n inputs) = vs"
    by (simp add: response_vectors_def collect_vectors_Some)
  with vs show "embeddings_create w n inputs = Inr (Some (map Some (response_vectors (embeddings_create w n inputs))))"
    and "length (response_vectors (embeddings_create w n inputs)) = length inputs"
    by simp_all
qed

lemma callOpenAIEmbeddings_ok:
  assumes "provider_ok w" and "inputs \<noteq> []"
  shows "callOpenAIEmbeddings inputs w =
           (Inr (response_vectors (embeddings_create w (length (requestLog w)) inputs)),
            w\<lparr>requestLog := requestLog w @ [inputs]\<rparr>)"
proof -
  have "embeddingsRequest inputs w =
          (Inr (response_vectors (embeddings_create w (length (requestLog w)) inputs)),
           w\<lparr>requestLog := requestLog w @ [inputs]\<rparr>)"
    using provider_ok_response[OF assms(1), of "length (requestLog w)" inputs]
    by (intro embeddingsRequest_ok)
  from withRetries_loop_success[where fn = "embeddingsRequest inputs" and w = w, OF this]
  show ?thesis using assms(2) by (simp add: callOpenAIEmbeddings_def withRetries_def)
qed

lemma responses_Nil: "responses w [] = []"
  by (simp add: responses_def)

lemma responses_Cons:
  "responses w (c # cs) =
     response_vectors (embeddings_create w (length (requestLog w)) c) #
     responses (w\<lparr>requestLog := requestLog w @ [c]\<rparr>) cs"
  by (simp add: responses_def upt_rec[of 0] map_Suc_upt[symmetric] del: upt_Suc)

lemma chunk_loop_ok:
  assumes "provider_ok w"
  shows "chunk_loop xs i results w =
           (Inr (results @ concat (responses w (chunks MAX_BATCH_SIZE (drop i xs)))),
            w\<lparr>requestLog := requestLog w @ chunks MAX_BATCH_SIZE (drop i xs)\<rparr>)"
  using assms
proof (induction "length xs - i" arbitrary: i results w rule: less_induct)
  case less
  show ?case
  proof (cases "i < length xs")
    case False
    then show ?thesis
      by (subst chunk_loop.simps) (simp add: chunks_Nil responses_Nil)
  next
    case True
    let ?c = "take MAX_BATCH_SIZE (drop i xs)"
    let ?w1 = "w\<lparr>requestLog := requestLog w @ [?c]\<rparr>"
    have c: "?c \<noteq> []" using True by (simp add: MAX_BATCH_SIZE_def)
    have ch: "chunks MAX_BATCH_SIZE (drop i xs) =
                ?c # chunks MAX_BATCH_SIZE (drop (i + MAX_BATCH_SIZE) xs)"
      using True by (subst chunks_Cons) (simp_all add: MAX_BATCH_SIZE_def add.commute)
    have ok1: "provider_ok ?w1" using less.prems by (simp add: provider_ok_def)
    have m: "length xs - (i + MAX_BATCH_SIZE) < length xs - i"
      using True by (simp add: MAX_BATCH_SIZE_def)
    note ih = less.hyps[OF m ok1]
    show ?thesis
      by (subst chunk_loop.simps)
         (simp add: True callOpenAIEmbeddings_ok[OF less.prems c] ih ch responses_Cons)
  qed
qed


lemma normalize_ok: "\<forall>t \<in> set texts. trim t \<noteq> [] \<Longrightarrow> normalize texts idx = Inr (map trim texts)"
  by (induction texts arbitrary: idx) simp_all

lemma normalize_fail:
  "i < length texts \<Longrightarrow> trim (texts ! i) = [] \<Longrightarrow> \<forall>j<i. trim (texts ! j) \<noteq> [] \<Longrightarrow>
   normalize texts idx = Inl (idx + i)"
proof (induction texts arbitrary: i idx)
  case Nil
  then show ?case by simp
next
  case (Cons t ts)
  show ?case
  proof (cases i)
    case 0
    then show ?thesis using Cons.prems by simp
  next
    case (Suc n)
    have t: "trim t \<noteq> []" using Cons.prems(3) Suc by auto
    have "normalize ts (idx + 1) = Inl (idx + 1 + n)"
      using Cons.prems Suc by (intro Cons.IH) auto
    then show ?thesis using t Suc by simp
  qed
qed

lemma length_concat_responses:
  assumes "provider_ok w"
  shows "length (concat (responses w cs)) = length (concat cs)"
proof -
  have "map length (responses w cs) = map length cs"
    using provider_ok_response(2)[OF assms]
    by (auto simp: responses_def intro!: nth_equalityI)
  then show ?thesis by (simp add: length_concat)
qed

lemma embedBatch_ok:
  assumes "texts \<noteq> []" and "\<forall>t \<in> set texts. trim t \<noteq> []" and "provider_ok w"
  shows "embedBatch texts w =
           (Inr (concat (responses w (chunks MAX_BATCH_SIZE (map trim texts)))),
            w\<lparr>requestLog := requestLog w @ chunks MAX_BATCH_SIZE (map trim texts)\<rparr>)"
proof -
  let ?xs = "map trim texts"
  have n: "normalize texts 0 = Inr ?xs" using assms(2) by (rule normalize_ok)
  have x: "?xs \<noteq> []" using assms(1) by simp
  show ?thesis
  proof (cases "length ?xs \<le> MAX_BATCH_SIZE")
    case True
    have "chunks MAX_BATCH_SIZE ?xs = [?xs]"
      using True x by (intro chunks_single) (simp_all add: MAX_BATCH_SIZE_def)
    then show ?thesis
      using assms(1) True n callOpenAIEmbeddings_ok[OF assms(3) x]
      by (simp add: embedBatch_def responses_def)
  next
    case False
    have l: "length (concat (responses w (chunks MAX_BATCH_SIZE ?xs))) = length ?xs"
      using length_concat_responses[OF assms(3)] concat_chunks[of MAX_BATCH_SIZE ?xs]
      by (simp add: MAX_BATCH_SIZE_def)
    show ?thesis
      using assms(1) False n l chunk_loop_ok[OF assms(3), of ?xs 0 "[]"]
      by (simp add: embedBatch_def)
  qed
qed

lemma trim_examples:
  "trim '' a '' = ''a''" "trim ''bb'' = ''bb''" "trim ''  '' = []" "trim ''a'' = ''a''"
  by (simp_all add: trim_def isWhiteSpace_def)

lemma lengthProvider_ok:
  "\<forall>n inputs. \<exists>vs. embeddings_create (provider_world0 lengthProvider) n inputs =
                      Inr (Some (map Some vs)) \<and> length vs = length inputs"
proof (intro allI)
  fix n :: nat and inputs :: "string list"
  show "\<exists>vs. embeddings_create (provider_world0 lengthProvider) n inputs =
                      Inr (Some (map Some vs)) \<and> length vs = length inputs"
    by (rule exI[of _ "map (\<lambda>t. [real (length t)]) inputs"])
       (simp add: provider_world0_def lengthProvider_def comp_def)
qed

text \<open>
  C4. Let the list of texts be not empty. When every text is non-empty after trimming and
  every call to the provider returns one vector for each of its inputs, \<open>embedBatch\<close>
  returns: it cuts the trimmed texts into consecutive chunks of at most
  \<open>MAX_BATCH_SIZE = 128\<close> (none of them empty, their concatenation the trimmed
  texts), sends the chunks to the provider one after the other in this order, and returns
  the concatenation of the answers, where the answer to the \<open>k\<close>-th chunk is the list
  of vectors the provider returned for it, as long as the chunk; so the result has as many
  vectors as there are texts, in the order of the texts. When some text trims to the empty
  string, \<open>embedBatch\<close> throws an error with the index of the first such text and
  does not call the provider.
\<close>

theorem embedBatch_order_preserving:
  assumes "texts \<noteq> []"
  shows "((\<forall>t \<in> set texts. trim t \<noteq> []) \<and>
          (\<forall>n inputs. \<exists>vs. embeddings_create w n inputs = Inr (Some (map Some vs)) \<and>
                           length vs = length inputs) \<longrightarrow>
            (\<exists>rs. embedBatch texts w =
                     (Inr (concat rs),
                      w\<lparr>requestLog := requestLog w @ chunks MAX_BATCH_SIZE (map trim texts)\<rparr>) \<and>
               length rs = length (chunks MAX_BATCH_SIZE (map trim texts)) \<and>
               (\<forall>k < length (chunks MAX_BATCH_SIZE (map trim texts)).
                  embeddings_create w (length (requestLog w) + k)
                    (chunks MAX_BATCH_SIZE (map trim texts) ! k) = Inr (Some (map Some (rs ! k))) \<and>
                  length (rs ! k) = length (chunks MAX_BATCH_SIZE (map trim texts) ! k)) \<and>
               concat (chunks MAX_BATCH_SIZE (map trim texts)) = map trim texts \<and>
               (\<forall>c \<in> set (chunks MAX_BATCH_SIZE (map trim texts)).
                  1 \<le> length c \<and> length c \<le> MAX_BATCH_SIZE) \<and>
               MAX_BATCH_SIZE = 128 \<and>
               length (concat rs) = length texts)) \<and>
         (\<forall>i < length texts.
            trim (texts ! i) = [] \<and> (\<forall>j<i. trim (texts ! j) \<noteq> []) \<longrightarrow>
              embedBatch texts w = (Inl (EmptyText i), w))"
proof (intro conjI allI impI)
  assume a: "(\<forall>t \<in> set texts. trim t \<noteq> []) \<and>
          (\<forall>n inputs. \<exists>vs. embeddings_create w n inputs = Inr (Some (map Some vs)) \<and>
                           length vs = length inputs)"
  then have ok: "provider_ok w" by (simp add: provider_ok_def)
  let ?cs = "chunks MAX_BATCH_SIZE (map trim texts)"
  let ?rs = "responses w ?cs"
  have p: "0 < MAX_BATCH_SIZE" by (simp add: MAX_BATCH_SIZE_def)
  show "\<exists>rs. embedBatch texts w =
                     (Inr (concat rs), w\<lparr>requestLog := requestLog w @ ?cs\<rparr>) \<and>
               length rs = length ?cs \<and>
               (\<forall>k < length ?cs.
                  embeddings_create w (length (requestLog w) + k) (?cs ! k) =
                    Inr (Some (map Some (rs ! k))) \<and>
                  length (rs ! k) = length (?cs ! k)) \<and>
               concat ?cs = map trim texts \<and>
               (\<forall>c \<in> set ?cs. 1 \<le> length c \<and> length c \<le> MAX_BATCH_SIZE) \<and>
               MAX_BATCH_SIZE = 128 \<and>
               length (concat rs) = length texts"
  proof (intro exI[of _ ?rs] conjI)
    show "embedBatch texts w = (Inr (concat ?rs), w\<lparr>requestLog := requestLog w @ ?cs\<rparr>)"
      using assms a ok by (intro embedBatch_ok) simp_all
    show "length ?rs = length ?cs" by (simp add: responses_def)
    show "\<forall>k < length ?cs.
            embeddings_create w (length (requestLog w) + k) (?cs ! k) =
              Inr (Some (map Some (?rs ! k))) \<and>
            length (?rs ! k) = length (?cs ! k)"
      using provider_ok_response[OF ok] by (simp add: responses_def)
    show "concat ?cs = map trim texts" using p by (rule concat_chunks)
    show "\<forall>c \<in> set ?cs. 1 \<le> length c \<and> length c \<le> MAX_BATCH_SIZE"
      using chunks_sizes[OF p] by blast
    show "MAX_BATCH_SIZE = 128" by (simp add: MAX_BATCH_SIZE_def)
    show "length (concat ?rs) = length texts"
      using length_concat_responses[OF ok, of ?cs] concat_chunks[OF p, of "map trim texts"]
      by simp
  qed
next
  fix i
  assume "i < length texts"
    and "trim (texts ! i) = [] \<and> (\<forall>j<i. trim (texts ! j) \<noteq> [])"
  then have "normalize texts 0 = Inl (0 + i)" by (intro normalize_fail) simp_all
  then show "embedBatch texts w = (Inl (EmptyText i), w)"
    using assms by (simp add: embedBatch_def)
qed


theorem embedBatch_order_preserving_witness:
  "(\<exists>rs. embedBatch ['' a '', ''bb''] (provider_world0 lengthProvider) =
           (Inr (concat rs),
            (provider_world0 lengthProvider)\<lparr>requestLog := [[''a'', ''bb'']]\<rparr>) \<and>
         length (concat rs) = 2) \<and>
   embedBatch [''a'', ''  ''] (provider_world0 lengthProvider) =
     (Inl (EmptyText 1), provider_world0 lengthProvider)"
proof -
  let ?w = "provider_world0 lengthProvider"
  have c: "chunks MAX_BATCH_SIZE [''a'', ''bb''] = [[''a'', ''bb'']]"
    by (rule chunks_single) (simp_all add: MAX_BATCH_SIZE_def)
  have t: "\<forall>t \<in> set ['' a '', ''bb'']. trim t \<noteq> []"
    by (simp add: trim_examples)
  have n1: "['' a '', ''bb''] \<noteq> []" and n2: "[''a'', ''  ''] \<noteq> []" by simp_all
  from embedBatch_order_preserving[OF n1, of ?w, THEN conjunct1, THEN mp, OF conjI[OF t lengthProvider_ok]]
  obtain rs where
    "embedBatch ['' a '', ''bb''] ?w =
       (Inr (concat rs),
        ?w\<lparr>requestLog := requestLog ?w @ chunks MAX_BATCH_SIZE (map trim ['' a '', ''bb''])\<rparr>)"
    "length (concat rs) = length ['' a '', ''bb'']"
    by (elim exE conjE) (rule that)
  then have 1: "\<exists>rs. embedBatch ['' a '', ''bb''] ?w =
           (Inr (concat rs), ?w\<lparr>requestLog := [[''a'', ''bb'']]\<rparr>) \<and>
         length (concat rs) = 2"
    by (intro exI[of _ rs]) (simp add: trim_examples c provider_world0_def)
  have "embedBatch [''a'', ''  ''] ?w = (Inl (EmptyText 1), ?w)"
    using embedBatch_order_preserving[OF n2, of ?w, THEN conjunct2, rule_format, of 1]
    by (simp add: trim_examples)
  with 1 show ?thesis by (intro conjI)
qed

section \<open>Two concurrent calls of addEmbedding\<close>

lemma step_Called:
  "indexCache w = Some c \<Longrightarrow> step rt (Called j) w = (Loaded j, w)"
  by (simp add: ensureIndexLoaded_loaded)

lemma step_Loaded:
  "indexCache w = Some c \<Longrightarrow> zEmbeddingRecord rt j = Inr v \<Longrightarrow>
   step rt (Loaded j) w = (Saving (upserted v (map cached_record (embeddings c))), w)"
  by (simp add: ensureIndexLoaded_loaded upserted_def split: prod.splits)

lemma step_Saving:
  assumes "indexCache w = Some c" and "\<forall>r \<in> set recs. satisfiesContract rt r"
    and "\<not> driveFails w (ioCount w)"
  shows "\<exists>created updated u w'.
           step rt (Saving recs) w = (Written created updated recs, w') \<and>
           indexCache w' = Some c \<and> ioCount w' = Suc (ioCount w) \<and>
           driveFails w' = driveFails w \<and>
           driveFile w' = Some (indexFileToJson EMBEDDING_INDEX_SCHEMA_VERSION created u recs)"
proof -
  have v: "validate_loop rt (map recordToJson recs) [] = Inr recs"
    using validate_loop_valid[OF parse_map_recordToJson[OF assms(2)], of "[]"] by simp
  show ?thesis
  proof (cases "fm_createdAt (fileMeta c) \<noteq> []")
    case True
    show ?thesis
      using assms(1,3) True
      by (auto simp add: v saveIndexFileToDrive_result nowIso_def)
  next
    case False
    show ?thesis
      using assms(1,3) False
      by (auto simp add: v saveIndexFileToDrive_result nowIso_def)
  qed
qed

lemma step_Written:
  assumes "\<forall>r \<in> set recs. satisfiesContract rt r"
  shows "step rt (Written created updated recs) w =
           (Finished (Inr ()),
            w\<lparr>indexCache :=
                 Some \<lparr>fileMeta =
                         \<lparr>fm_schemaVersion = EMBEDDING_INDEX_SCHEMA_VERSION,
                          fm_createdAt = created, fm_updatedAt = updated\<rparr>,
                       embeddings = map (cached rt) recs\<rparr>\<rparr>)"
proof -
  have "\<forall>r \<in> set recs. vector r \<noteq> []"
    using assms contract_vector_nonempty by blast
  then show ?thesis by (simp add: buildCachedEmbeddings_nonempty)
qed

lemma steps_Saving_Written:
  assumes "indexCache w = Some c"
  shows "(case step rt (Saving recs) w of (t, w') \<Rightarrow> step rt t w') =
           (Finished (fst (saveIndex rt (map recordToJson recs) w)),
            snd (saveIndex rt (map recordToJson recs) w))"
proof -
  have l: "ensureIndexLoaded rt w = (Inr (), w)"
    using assms by (rule ensureIndexLoaded_loaded)
  show ?thesis
  proof (cases "validate_loop rt (map recordToJson recs) []")
    case (Inl e)
    then show ?thesis
      unfolding saveIndex_loaded[OF l assms] Let_def
      using assms by (simp add: nowIso_def ticked_def)
  next
    case (Inr ds)
    show ?thesis
    proof (cases "fm_createdAt (fileMeta c) \<noteq> []")
      case True
      show ?thesis
      proof (cases "buildCachedEmbeddings rt ds")
        case (Inl e)
        then show ?thesis
          unfolding saveIndex_loaded[OF l assms] Let_def
          using assms Inr True
          by (simp add: nowIso_def ticked_def called_def saveIndexFileToDrive_result)
      next
        case (Inr es)
        then show ?thesis
          unfolding saveIndex_loaded[OF l assms] Let_def
          using assms \<open>validate_loop rt (map recordToJson recs) [] = Inr ds\<close> True
          by (simp add: nowIso_def ticked_def called_def saveIndexFileToDrive_result)
      qed
    next
      case False
      show ?thesis
      proof (cases "buildCachedEmbeddings rt ds")
        case (Inl e)
        then show ?thesis
          unfolding saveIndex_loaded[OF l assms] Let_def
          using assms Inr False
          by (simp add: nowIso_def ticked_def called_def saveIndexFileToDrive_result)
      next
        case (Inr es)
        then show ?thesis
          unfolding saveIndex_loaded[OF l assms] Let_def
          using assms \<open>validate_loop rt (map recordToJson recs) [] = Inr ds\<close> False
          by (simp add: nowIso_def ticked_def called_def saveIndexFileToDrive_result)
      qed
    qed
  qed
qed

text \<open>
  The steps are the code of \<open>addEmbedding\<close>: a call that runs alone, through its four
  steps, ends as \<open>addEmbedding\<close> does.
\<close>

lemma run_alone:
  "run rt [First, First, First, First] (Called j, b, w) =
     (Finished (fst (addEmbedding rt j w)), b, snd (addEmbedding rt j w))"
proof (cases "ensureIndexLoaded rt w")
  case (Pair r w1)
  show ?thesis
  proof (cases r)
    case (Inl e)
    then show ?thesis using Pair by (simp add: addEmbedding_def)
  next
    case (Inr u)
    with Pair obtain c where c: "indexCache w1 = Some c"
      using ensureIndexLoaded_Inr by blast
    have l: "ensureIndexLoaded rt w = (Inr (), w1)" using Pair Inr by simp
    show ?thesis
    proof (cases "zEmbeddingRecord rt j")
      case (Inl iss)
      then show ?thesis using l c by (simp add: addEmbedding_def)
    next
      case (Inr v)
      let ?recs = "upserted v (map cached_record (embeddings c))"
      have 1: "step rt (Called j) w = (Loaded j, w1)" using l by simp
      have 2: "step rt (Loaded j) w1 = (Saving ?recs, w1)"
        using c Inr by (rule step_Loaded)
      have a: "addEmbedding rt j w = saveIndex rt (map recordToJson ?recs) w1"
        unfolding addEmbedding_loaded[OF l c] using Inr by simp
      obtain t w2 where 3: "step rt (Saving ?recs) w1 = (t, w2)" by (cases "step rt (Saving ?recs) w1")
      have 4: "step rt t w2 = (Finished (fst (addEmbedding rt j w)), snd (addEmbedding rt j w))"
        using steps_Saving_Written[OF c, of rt ?recs] 3 a by simp
      show ?thesis
        by (simp only: run.simps 1 2 3 4 prod.case)
    qed
  qed
qed


lemma upserted_contract:
  assumes "\<forall>r \<in> set rs. satisfiesContract rt r" and "satisfiesContract rt v"
  shows "\<forall>r \<in> set (upserted v rs). satisfiesContract rt r"
  using assms set_upserted[of v rs] by blast

lemma example_cache_contract:
  "\<forall>r \<in> set (map cached_record (embeddings (example_cache []))). satisfiesContract rt r"
  by (simp add: example_cache_def)

text \<open>
  C9. Nothing keeps a second call of \<open>addEmbedding\<close> from running while a first one
  is suspended. Let the cache be loaded with valid records, let two calls be made with
  records that parse to \<open>a\<close> and \<open>b\<close>, and let the next two calls to Drive not
  fail. Take the interleaving where both calls pass their first \<open>await\<close>, both read
  the cache, the first call writes and replaces the cache, and then the second call
  writes and replaces the cache. After the first four steps nothing has changed and
  each call holds the full list it has computed from the same snapshot: the snapshot
  with \<open>a\<close> upserted for the first call, the snapshot with \<open>b\<close> upserted for the
  second. After the two steps of the first call that follow, the first call has returned
  with no error, and the cache and the document in Drive hold its list, with \<open>a\<close>
  in it. After the last two steps the second call has returned with no error, and the
  cache and the document in Drive hold the list that the second call computed from the
  snapshot. Unless \<open>a\<close> is \<open>b\<close> or was in the snapshot already, \<open>a\<close> is
  not in the cache any more: the update of the first call is lost.
\<close>

theorem concurrent_addEmbedding_lost_update:
  assumes "indexCache w = Some c"
    and "\<forall>r \<in> set (map cached_record (embeddings c)). satisfiesContract rt r"
    and "zEmbeddingRecord rt ja = Inr a" and "zEmbeddingRecord rt jb = Inr b"
    and "\<not> driveFails w (ioCount w)" and "\<not> driveFails w (Suc (ioCount w))"
  shows "\<exists>wa ca createda ua w' c' created u.
           run rt [First, Second, First, Second] (Called ja, Called jb, w) =
             (Saving (upserted a (map cached_record (embeddings c))),
              Saving (upserted b (map cached_record (embeddings c))), w) \<and>
           run rt [First, Second, First, Second, First, First] (Called ja, Called jb, w) =
             (Finished (Inr ()), Saving (upserted b (map cached_record (embeddings c))), wa) \<and>
           indexCache wa = Some ca \<and>
           map cached_record (embeddings ca) = upserted a (map cached_record (embeddings c)) \<and>
           driveFile wa =
             Some (indexFileToJson EMBEDDING_INDEX_SCHEMA_VERSION createda ua
                     (upserted a (map cached_record (embeddings c)))) \<and>
           a \<in> set (map cached_record (embeddings ca)) \<and>
           run rt [First, Second, First, Second, First, First, Second, Second]
             (Called ja, Called jb, w) = (Finished (Inr ()), Finished (Inr ()), w') \<and>
           indexCache w' = Some c' \<and>
           map cached_record (embeddings c') = upserted b (map cached_record (embeddings c)) \<and>
           driveFile w' =
             Some (indexFileToJson EMBEDDING_INDEX_SCHEMA_VERSION created u
                     (upserted b (map cached_record (embeddings c)))) \<and>
           (a \<noteq> b \<and> a \<notin> set (map cached_record (embeddings c)) \<longrightarrow>
              a \<notin> set (map cached_record (embeddings c')))"
proof -
  let ?old = "map cached_record (embeddings c)"
  let ?ra = "upserted a ?old"
  let ?rb = "upserted b ?old"
  have ca: "\<forall>r \<in> set ?ra. satisfiesContract rt r"
    using assms(2) zEmbeddingRecord_satisfiesContract[OF assms(3)] by (rule upserted_contract)
  have cb: "\<forall>r \<in> set ?rb. satisfiesContract rt r"
    using assms(2) zEmbeddingRecord_satisfiesContract[OF assms(4)] by (rule upserted_contract)
  have 1: "step rt (Called ja) w = (Loaded ja, w)" using assms(1) by (rule step_Called)
  have 2: "step rt (Called jb) w = (Loaded jb, w)" using assms(1) by (rule step_Called)
  have 3: "step rt (Loaded ja) w = (Saving ?ra, w)" using assms(1,3) by (rule step_Loaded)
  have 4: "step rt (Loaded jb) w = (Saving ?rb, w)" using assms(1,4) by (rule step_Loaded)
  from step_Saving[OF assms(1) ca assms(5)] obtain cr1 up1 u1 w1 where
    5: "step rt (Saving ?ra) w = (Written cr1 up1 ?ra, w1)" and
    w1: "indexCache w1 = Some c" "ioCount w1 = Suc (ioCount w)" "driveFails w1 = driveFails w"
    and d1: "driveFile w1 = Some (indexFileToJson EMBEDDING_INDEX_SCHEMA_VERSION cr1 u1 ?ra)"
    by blast
  let ?c2 = "\<lparr>fileMeta = \<lparr>fm_schemaVersion = EMBEDDING_INDEX_SCHEMA_VERSION,
                            fm_createdAt = cr1, fm_updatedAt = up1\<rparr>,
               embeddings = map (cached rt) ?ra\<rparr>"
  let ?w2 = "w1\<lparr>indexCache := Some ?c2\<rparr>"
  have 6: "step rt (Written cr1 up1 ?ra) w1 = (Finished (Inr ()), ?w2)"
    using ca by (rule step_Written)
  have w2: "indexCache ?w2 = Some ?c2" "\<not> driveFails ?w2 (ioCount ?w2)"
    using w1 assms(6) by simp_all
  from step_Saving[OF w2(1) cb w2(2)] obtain cr2 up2 u2 w3 where
    7: "step rt (Saving ?rb) ?w2 = (Written cr2 up2 ?rb, w3)" and
    w3: "driveFile w3 = Some (indexFileToJson EMBEDDING_INDEX_SCHEMA_VERSION cr2 u2 ?rb)"
    by blast
  let ?c4 = "\<lparr>fileMeta = \<lparr>fm_schemaVersion = EMBEDDING_INDEX_SCHEMA_VERSION,
                            fm_createdAt = cr2, fm_updatedAt = up2\<rparr>,
               embeddings = map (cached rt) ?rb\<rparr>"
  let ?w4 = "w3\<lparr>indexCache := Some ?c4\<rparr>"
  have 8: "step rt (Written cr2 up2 ?rb) w3 = (Finished (Inr ()), ?w4)"
    using cb by (rule step_Written)
  have r4: "run rt [First, Second, First, Second] (Called ja, Called jb, w) =
              (Saving ?ra, Saving ?rb, w)"
    by (simp only: run.simps 1 2 3 4 prod.case)
  have r6: "run rt [First, Second, First, Second, First, First] (Called ja, Called jb, w) =
              (Finished (Inr ()), Saving ?rb, ?w2)"
    by (simp only: run.simps 1 2 3 4 5 6 prod.case)
  have r: "run rt [First, Second, First, Second, First, First, Second, Second]
             (Called ja, Called jb, w) = (Finished (Inr ()), Finished (Inr ()), ?w4)"
    by (simp only: run.simps 1 2 3 4 5 6 7 8 prod.case)
  have m2: "map cached_record (embeddings ?c2) = ?ra"
    by (simp add: map_cached_record_cached_comp)
  have m: "map cached_record (embeddings ?c4) = ?rb"
    by (simp add: map_cached_record_cached_comp)
  have lost: "a \<noteq> b \<and> a \<notin> set ?old \<longrightarrow> a \<notin> set (map cached_record (embeddings ?c4))"
    unfolding m using set_upserted[of b ?old] by blast
  show ?thesis
  proof (rule exI[of _ ?w2], rule exI[of _ ?c2], rule exI[of _ cr1], rule exI[of _ u1],
      rule exI[of _ ?w4], rule exI[of _ ?c4], rule exI[of _ cr2], rule exI[of _ u2],
      intro conjI)
    show "run rt [First, Second, First, Second] (Called ja, Called jb, w) =
              (Saving ?ra, Saving ?rb, w)"
      by (rule r4)
    show "run rt [First, Second, First, Second, First, First] (Called ja, Called jb, w) =
              (Finished (Inr ()), Saving ?rb, ?w2)"
      by (rule r6)
    show "indexCache ?w2 = Some ?c2" by simp
    show "map cached_record (embeddings ?c2) = ?ra" by (rule m2)
    show "driveFile ?w2 = Some (indexFileToJson EMBEDDING_INDEX_SCHEMA_VERSION cr1 u1 ?ra)"
      using d1 by simp
    show "a \<in> set (map cached_record (embeddings ?c2))"
      unfolding m2 by (rule upserted_contains)
    show "run rt [First, Second, First, Second, First, First, Second, Second]
             (Called ja, Called jb, w) = (Finished (Inr ()), Finished (Inr ()), ?w4)"
      by (rule r)
    show "indexCache ?w4 = Some ?c4" by simp
    show "map cached_record (embeddings ?c4) = ?rb" by (rule m)
    show "driveFile ?w4 = Some (indexFileToJson EMBEDDING_INDEX_SCHEMA_VERSION cr2 u2 ?rb)"
      using w3 by simp
    show "a \<noteq> b \<and> a \<notin> set ?old \<longrightarrow> a \<notin> set (map cached_record (embeddings ?c4))"
      by (rule lost)
  qed
qed

text \<open>
  Two calls on a loaded empty index, with the records \<open>a\<close> and \<open>b\<close>: halfway the
  cache holds \<open>a\<close>, at the end it holds \<open>b\<close> alone.
\<close>

theorem concurrent_addEmbedding_lost_update_witness:
  "\<exists>wa ca w' c'.
     run exampleRuntime [First, Second, First, Second]
       (Called (recordToJson (exampleRecord ''a'' ''n1'' [1, 0])),
        Called (recordToJson (exampleRecord ''b'' ''n2'' [0, 1])),
        example_world [] []) =
       (Saving [exampleRecord ''a'' ''n1'' [1, 0]], Saving [exampleRecord ''b'' ''n2'' [0, 1]],
        example_world [] []) \<and>
     run exampleRuntime [First, Second, First, Second, First, First]
       (Called (recordToJson (exampleRecord ''a'' ''n1'' [1, 0])),
        Called (recordToJson (exampleRecord ''b'' ''n2'' [0, 1])),
        example_world [] []) =
       (Finished (Inr ()), Saving [exampleRecord ''b'' ''n2'' [0, 1]], wa) \<and>
     indexCache wa = Some ca \<and>
     map cached_record (embeddings ca) = [exampleRecord ''a'' ''n1'' [1, 0]] \<and>
     run exampleRuntime [First, Second, First, Second, First, First, Second, Second]
       (Called (recordToJson (exampleRecord ''a'' ''n1'' [1, 0])),
        Called (recordToJson (exampleRecord ''b'' ''n2'' [0, 1])),
        example_world [] []) = (Finished (Inr ()), Finished (Inr ()), w') \<and>
     indexCache w' = Some c' \<and>
     map cached_record (embeddings c') = [exampleRecord ''b'' ''n2'' [0, 1]]"
proof -
  let ?a = "exampleRecord ''a'' ''n1'' [1, 0]"
  let ?b = "exampleRecord ''b'' ''n2'' [0, 1]"
  let ?old = "map cached_record (embeddings (example_cache []))"
  have pa: "zEmbeddingRecord exampleRuntime (recordToJson ?a) = Inr ?a"
    by (intro zEmbeddingRecord_recordToJson exampleRecord_contract) simp_all
  have pb: "zEmbeddingRecord exampleRuntime (recordToJson ?b) = Inr ?b"
    by (intro zEmbeddingRecord_recordToJson exampleRecord_contract) simp_all
  have d: "\<not> driveFails (example_world [] []) (Suc (ioCount (example_world [] [])))"
    by (simp add: example_world_def)
  have ua: "upserted ?a ?old = [?a]" and ub: "upserted ?b ?old = [?b]"
    by (simp_all add: example_cache_records upserted_Nil)
  from concurrent_addEmbedding_lost_update[OF example_world_cache example_cache_contract pa pb
      example_world_drive d]
  obtain wa w' and ca c' :: IndexCache where
    "run exampleRuntime [First, Second, First, Second]
       (Called (recordToJson ?a), Called (recordToJson ?b), example_world [] []) =
       (Saving (upserted ?a ?old), Saving (upserted ?b ?old), example_world [] [])"
    "run exampleRuntime [First, Second, First, Second, First, First]
       (Called (recordToJson ?a), Called (recordToJson ?b), example_world [] []) =
       (Finished (Inr ()), Saving (upserted ?b ?old), wa)"
    "indexCache wa = Some ca"
    "map cached_record (embeddings ca) = upserted ?a ?old"
    "run exampleRuntime [First, Second, First, Second, First, First, Second, Second]
       (Called (recordToJson ?a), Called (recordToJson ?b), example_world [] []) =
       (Finished (Inr ()), Finished (Inr ()), w')"
    "indexCache w' = Some c'"
    "map cached_record (embeddings c') = upserted ?b ?old"
    by (elim exE conjE) (rule that)
  then show ?thesis
    unfolding ua ub
    by (intro exI[of _ wa] exI[of _ ca] exI[of _ w'] exI[of _ c'] conjI)
qed

section \<open>The document written by saveIndex loads again\<close>

lemma zEmbeddingIndexMeta_indexFileToJson:
  "1 \<le> sv \<Longrightarrow>
   zEmbeddingIndexMeta (indexFileToJson sv c u rs) =
     Inr \<lparr>meta_schemaVersion = sv, meta_createdAt = c, meta_updatedAt = u,
          meta_records = map recordToJson rs\<rparr>"
  by (simp add: zEmbeddingIndexMeta_def indexFileToJson_def z_int_min1_def z_string_def
      z_array_unknown_def)

lemma load_loop_recordToJson:
  assumes "\<forall>r \<in> set R. satisfiesContract rt r"
  shows "fst (load_loop rt (map recordToJson R) [] 0 []) = R"
proof -
  have "map Inr (fst (load_loop rt (map recordToJson R) [] 0 [])) =
          filter (\<lambda>p. \<not> isl p) (map Inr R :: (issues + EmbeddingRecord) list)"
    unfolding load_loop_eq parse_map_recordToJson[OF assms] by simp
  also have "\<dots> = map Inr R" by (induction R) simp_all
  finally show ?thesis by (simp add: inj_map_eq_map)
qed

text \<open>
  The round trip also holds through Drive: a process that starts with no cache and reads
  the document that a returning \<open>saveIndex R\<close> has written loads \<open>R\<close>.
\<close>

lemma saveIndex_persisted_roundtrip:
  assumes "\<forall>r \<in> set R. satisfiesContract rt r"
    and "saveIndex rt (map recordToJson R) w = (Inr (), w')"
    and "\<not> driveFails w' (ioCount w')"
  shows "\<exists>w''. loadIndex rt (w'\<lparr>indexCache := None\<rparr>) = (Inr R, w'')"
proof -
  from saveIndex_success[OF assms(2)] obtain c' :: IndexCache and u ds where
    p: "map (zEmbeddingRecord rt) (map recordToJson R) = map Inr ds" and
    d: "driveFile w' =
          Some (indexFileToJson EMBEDDING_INDEX_SCHEMA_VERSION (fm_createdAt (fileMeta c')) u ds)"
    by (elim exE conjE) (rule that)
  have ds: "ds = R" using p by (rule parse_recordToJson_list)
  let ?w = "w'\<lparr>indexCache := None\<rparr>"
  let ?doc = "indexFileToJson EMBEDDING_INDEX_SCHEMA_VERSION (fm_createdAt (fileMeta c')) u R"
  have r: "readJson ?w = (Inr (Some ?doc), called ?w)"
    using assms(3) d ds by (simp add: readJson_def called_def)
  have m: "zEmbeddingIndexMeta ?doc =
             Inr \<lparr>meta_schemaVersion = EMBEDDING_INDEX_SCHEMA_VERSION,
                  meta_createdAt = fm_createdAt (fileMeta c'), meta_updatedAt = u,
                  meta_records = map recordToJson R\<rparr>"
    by (rule zEmbeddingIndexMeta_indexFileToJson) (simp add: EMBEDDING_INDEX_SCHEMA_VERSION_def)
  have n: "indexCache ?w = None" by simp
  show ?thesis
    by (simp add: loadIndex_def ensureIndexLoaded_first_load[OF n r m]
        load_loop_recordToJson[OF assms(1)] map_cached_record_cached_comp)
qed

section \<open>The norms in the cache\<close>

text \<open>
  Every cache that the module builds holds, for each entry, the norm that
  \<open>computeNorm\<close> computes from the vector of the entry: after a load, after
  \<open>saveIndex\<close> and after \<open>addEmbedding\<close>.
\<close>

lemma cached_norms:
  "\<forall>e \<in> set (map (cached rt) rs). cached_norm e = computeNorm rt (vector (cached_record e))"
  by (simp add: cached_def)

lemma ensureIndexLoaded_norms:
  assumes "indexCache w = None" and "ensureIndexLoaded rt w = (Inr (), w1)"
    and "indexCache w1 = Some c"
  shows "\<forall>e \<in> set (embeddings c). cached_norm e = computeNorm rt (vector (cached_record e))"
proof (cases "loadIndexFileFromDrive rt w")
  case (Pair r wl)
  show ?thesis
  proof (cases r)
    case (Inl e)
    then show ?thesis using assms Pair by (simp add: ensureIndexLoaded_def)
  next
    case (Inr fo)
    show ?thesis
    proof (cases fo)
      case None
      then have "embeddings c = []"
        using assms Pair Inr
        by (auto simp: ensureIndexLoaded_def split: prod.splits sum.splits)
      then show ?thesis by simp
    next
      case (Some loaded)
      then obtain es where "buildCachedEmbeddings rt (records loaded) = Inr es"
        and "embeddings c = es"
        using assms Pair Inr
        by (auto simp: ensureIndexLoaded_def split: sum.splits)
      then have "embeddings c = map (cached rt) (records loaded)"
        using buildCachedEmbeddings_Inr by blast
      then show ?thesis by (simp add: cached_def)
    qed
  qed
qed

lemma saveIndex_norms:
  assumes "saveIndex rt recs w = (Inr (), w')" and "indexCache w' = Some c'"
  shows "\<forall>e \<in> set (embeddings c'). cached_norm e = computeNorm rt (vector (cached_record e))"
proof -
  from saveIndex_success[OF assms(1)] assms(2) obtain ds where
    "embeddings c' = map (cached rt) ds" by auto
  then show ?thesis by (simp add: cached_def)
qed

lemma addEmbedding_norms:
  assumes "addEmbedding rt j w = (Inr (), w')" and "indexCache w' = Some c'"
  shows "\<forall>e \<in> set (embeddings c'). cached_norm e = computeNorm rt (vector (cached_record e))"
proof -
  from assms(1) obtain recs w1 where "saveIndex rt recs w1 = (Inr (), w')"
    by (auto simp: addEmbedding_def split: prod.splits sum.splits option.splits)
  then show ?thesis using assms(2) by (rule saveIndex_norms)
qed

end
